theory Spec2Isabelle
  imports Main "HOL-Library.Word"
begin

section \<open>Strings\<close>

text \<open>
  A JavaScript string is modelled as a \<^typ>\<open>string\<close>: a list of characters, each one
  standing for a code unit below 256. The characters the engine inspects (quotes,
  \<open>#\<close>, \<open>:\<close>, \<open>=\<close>, \<open>,\<close>, line breaks) are all ASCII. White space is the set that
  \<^verbatim>\<open>\s\<close> and \<^verbatim>\<open>String.prototype.trim\<close> recognise, restricted to that range:
  TAB, LF, VT, FF, CR, SPACE and NBSP.
\<close>

abbreviation dquote :: char where "dquote \<equiv> CHR 0x22"
abbreviation squote :: char where "squote \<equiv> CHR 0x27"
abbreviation LF :: char where "LF \<equiv> CHR 0x0A"
abbreviation CR :: char where "CR \<equiv> CHR 0x0D"

definition is_space :: "char \<Rightarrow> bool" where
  "is_space c \<longleftrightarrow>
     c = CHR 0x09 \<or> c = LF \<or> c = CHR 0x0B \<or> c = CHR 0x0C \<or> c = CR \<or> c = CHR 0x20 \<or> c = CHR 0xA0"

text \<open>\<^verbatim>\<open>s.trim()\<close>\<close>

definition trim :: "string \<Rightarrow> string" where
  "trim s = rev (dropWhile is_space (rev (dropWhile is_space s)))"

text \<open>\<^verbatim>\<open>s.split(c)\<close> for a one-character separator: always at least one part.\<close>

fun split_acc :: "char \<Rightarrow> string \<Rightarrow> string \<Rightarrow> string list" where
  "split_acc c cur [] = [rev cur]"
| "split_acc c cur (x # xs) =
     (if x = c then rev cur # split_acc c [] xs else split_acc c (x # cur) xs)"

definition split_on :: "char \<Rightarrow> string \<Rightarrow> string list" where
  "split_on c s = split_acc c [] s"

text \<open>\<^verbatim>\<open>s.split(/\r?\n/)\<close>: a line break is LF or CR LF; a lone CR stays in its line.\<close>

fun split_lines_acc :: "string \<Rightarrow> string \<Rightarrow> string list" where
  "split_lines_acc cur [] = [rev cur]"
| "split_lines_acc cur [x] = (if x = LF then [rev cur, []] else [rev (x # cur)])"
| "split_lines_acc cur (x # y # ys) =
     (if x = LF then rev cur # split_lines_acc [] (y # ys)
      else if x = CR \<and> y = LF then rev cur # split_lines_acc [] ys
      else split_lines_acc (x # cur) (y # ys))"

definition split_lines :: "string \<Rightarrow> string list" where
  "split_lines s = split_lines_acc [] s"

text \<open>\<^verbatim>\<open>s.indexOf(c)\<close>: the index of the first occurrence, or \<open>-1\<close>.\<close>

definition indexOf :: "char \<Rightarrow> string \<Rightarrow> int" where
  "indexOf c s = (if c \<in> set s then int (length (takeWhile (\<lambda>x. x \<noteq> c) s)) else - 1)"

text \<open>\<^verbatim>\<open>s.startsWith('#')\<close>\<close>

definition startsWith_hash :: "string \<Rightarrow> bool" where
  "startsWith_hash s = (case s of [] \<Rightarrow> False | c # _ \<Rightarrow> c = CHR ''#'')"

section \<open>patchEngine.js: tokenizer and argument splitter\<close>

text \<open>
  \<^verbatim>\<open>tokenize\<close> runs the global regular expression
  \<^verbatim>\<open>/"([^"]*)"|'([^']*)'|[^\s]+/g\<close> over the line. At a white-space character no
  alternative matches and the scan moves one character on. At a quote character the
  quoted alternative matches exactly when the same quote occurs again later in the
  line; the token is then the text between the two quotes. Everywhere else (and at
  a quote that is never closed) the token is the maximal run of non-space characters,
  quote characters included.
\<close>

function tokenize :: "string \<Rightarrow> string list" where
  "tokenize [] = []"
| "tokenize (c # cs) =
     (if is_space c then tokenize cs
      else if c = dquote \<and> dquote \<in> set cs then
        takeWhile (\<lambda>x. x \<noteq> dquote) cs # tokenize (tl (dropWhile (\<lambda>x. x \<noteq> dquote) cs))
      else if c = squote \<and> squote \<in> set cs then
        takeWhile (\<lambda>x. x \<noteq> squote) cs # tokenize (tl (dropWhile (\<lambda>x. x \<noteq> squote) cs))
      else (c # takeWhile (\<lambda>x. \<not> is_space x) cs) # tokenize (dropWhile (\<lambda>x. \<not> is_space x) cs))"
  by pat_completeness auto
termination
proof (relation "measure length")
  fix c :: char and cs :: string
  have le: "length (dropWhile P cs) \<le> length cs" for P :: "char \<Rightarrow> bool"
    by (rule length_dropWhile_le)
  have "length (tl (dropWhile P cs)) \<le> length cs" for P :: "char \<Rightarrow> bool"
    using le [of P] by simp
  note tl_le = this
  show "(cs, c # cs) \<in> measure length" by simp
  show "(tl (dropWhile (\<lambda>x. x \<noteq> dquote) cs), c # cs) \<in> measure length"
    using tl_le [of "\<lambda>x. x \<noteq> dquote"] by simp
  show "(tl (dropWhile (\<lambda>x. x \<noteq> squote) cs), c # cs) \<in> measure length"
    using tl_le [of "\<lambda>x. x \<noteq> squote"] by simp
  show "(dropWhile (\<lambda>x. \<not> is_space x) cs, c # cs) \<in> measure length"
    using le [of "\<lambda>x. \<not> is_space x"] by simp
qed simp

text \<open>
  \<^verbatim>\<open>parseKeyValue\<close>: a token with an \<open>=\<close> at an index above 0 is a named argument
  (key and value trimmed, a later one replacing an earlier one with the same key);
  every other token is positional. The object \<open>named\<close> is a map from keys to
  values. Keys and parameter names that collide with members inherited from
  \<^verbatim>\<open>Object.prototype\<close> are outside this model.
\<close>

record key_values =
  named :: "string \<rightharpoonup> string"
  positional :: "string list"

fun parseKeyValue_loop :: "string list \<Rightarrow> key_values \<Rightarrow> key_values" where
  "parseKeyValue_loop [] kv = kv"
| "parseKeyValue_loop (t # ts) kv =
     (let eq = indexOf (CHR ''='') t in
      if eq > 0 then
        (let k = trim (take (nat eq) t); v = trim (drop (nat (eq + 1)) t)
         in parseKeyValue_loop ts (kv\<lparr>named := (named kv)(k \<mapsto> v)\<rparr>))
      else parseKeyValue_loop ts (kv\<lparr>positional := positional kv @ [t]\<rparr>))"

definition parseKeyValue :: "string list \<Rightarrow> key_values" where
  "parseKeyValue tokens = parseKeyValue_loop tokens \<lparr>named = Map.empty, positional = []\<rparr>"

section \<open>patchEngine.js: operation registry\<close>

record op_entry =
  op_handler :: string
  op_params :: "string list"
  op_line :: nat

type_synonym ops_map = "string \<rightharpoonup> op_entry"

text \<open>The template literal \<^verbatim>\<open>`${verb}:${type}`\<close>.\<close>

definition op_key :: "string \<Rightarrow> string \<Rightarrow> string" where
  "op_key verb type = verb @ '':'' @ type"

definition resolveOp :: "ops_map \<Rightarrow> string \<Rightarrow> string \<Rightarrow> op_entry option" where
  "resolveOp opsMap verb type =
     (case opsMap (op_key verb type) of
        Some exact \<Rightarrow> Some exact
      | None \<Rightarrow>
         (case opsMap (op_key verb ''*'') of
            Some wild \<Rightarrow> Some wild
          | None \<Rightarrow> None))"

text \<open>
  \<^verbatim>\<open>loadOpsMap\<close>, after the file has been read: \<open>raw\<close> is its text. An array
  destructuring \<^verbatim>\<open>[a, b] = parts\<close> takes the first two elements, \<open>b\<close> being
  \<^verbatim>\<open>undefined\<close> when there is only one; \<^verbatim>\<open>split\<close> never returns an empty array, so
  the branches for \<open>[]\<close> below are never taken. An undefined \<open>type\<close> is rendered
  by the template literal of the key as the text \<open>undefined\<close>.
\<close>

definition loadOps_line :: "nat \<Rightarrow> string \<Rightarrow> ops_map \<Rightarrow> ops_map" where
  "loadOps_line i l m =
     (let ln = trim l in
      if ln = [] \<or> startsWith_hash ln then m
      else
        (case map trim (split_on (CHR ''='') ln) of
           left # right # _ \<Rightarrow>
             if left = [] \<or> right = [] then m
             else
               (case (map trim (split_on (CHR '':'') left), map trim (split_on (CHR '':'') right)) of
                  (verb # ts, handler # ps) \<Rightarrow>
                    (let type = (case ts of [] \<Rightarrow> ''undefined'' | t # _ \<Rightarrow> t);
                         params =
                           (case ps of
                              [] \<Rightarrow> []
                            | paramsRaw # _ \<Rightarrow>
                                if paramsRaw = [] then []
                                else filter (\<lambda>s. s \<noteq> []) (map trim (split_on (CHR '','') paramsRaw)))
                     in m(op_key verb type \<mapsto>
                          \<lparr>op_handler = handler, op_params = params, op_line = i + 1\<rparr>))
                | _ \<Rightarrow> m)
         | _ \<Rightarrow> m))"

fun loadOps_loop :: "nat \<Rightarrow> string list \<Rightarrow> ops_map \<Rightarrow> ops_map" where
  "loadOps_loop i [] m = m"
| "loadOps_loop i (l # ls) m = loadOps_loop (Suc i) ls (loadOps_line i l m)"

definition loadOpsMap :: "string \<Rightarrow> ops_map" where
  "loadOpsMap raw = loadOps_loop 0 (split_lines raw) Map.empty"

section \<open>patchEngine.js: script parser\<close>

record action =
  a_verb :: string
  a_type :: string
  a_handler :: string
  a_args :: "string \<rightharpoonup> string"
  a_line :: nat
  a_raw :: string

text \<open>
  The diagnostics pushed onto \<open>errors\<close>. Each constructor stands for one message
  template of the source: \<^verbatim>\<open>Ligne N: format invalide (verb + type requis)\<close>,
  \<^verbatim>\<open>Ligne N: operation inconnue "verb:type"\<close> and
  \<^verbatim>\<open>Trop d'actions (> maxActions). ...\<close>.
\<close>

datatype diag =
    InvalidFormat nat
  | UnknownOperation nat string string
  | TooManyActions int

record parse_result =
  actions :: "action list"
  errors :: "diag list"
  warnings :: "string list"

text \<open>The parameter binding loop \<^verbatim>\<open>for (const p of op.params)\<close>.\<close>

fun bind_params ::
  "string list \<Rightarrow> (string \<rightharpoonup> string) \<Rightarrow> string list \<Rightarrow> (string \<rightharpoonup> string) \<Rightarrow> (string \<rightharpoonup> string)" where
  "bind_params [] nm pos args = args"
| "bind_params (p # ps) nm pos args =
     (case nm p of
        Some v \<Rightarrow> bind_params ps nm pos (args(p \<mapsto> v))
      | None \<Rightarrow>
         (case pos of
            x # rest \<Rightarrow> bind_params ps nm rest (args(p \<mapsto> x))
          | [] \<Rightarrow> bind_params ps nm [] (args(p \<mapsto> []))))"

text \<open>
  One pass through the body of the loop over the lines, for the line \<open>raw\<close> at index
  \<open>i\<close>: the line is skipped (blank or comment), rejected with a diagnostic, or
  yields an action. With a colon in the first token, \<^verbatim>\<open>[v, t] = verb.split(':')\<close>
  always has two parts, and \<^verbatim>\<open>t || type\<close> keeps the second token when \<open>t\<close> is empty.
\<close>

datatype line_outcome = Skipped | Rejected diag | Parsed action

definition parse_line :: "ops_map \<Rightarrow> nat \<Rightarrow> string \<Rightarrow> line_outcome" where
  "parse_line opsMap i raw =
     (let line = trim raw in
      if line = [] \<or> startsWith_hash line then Skipped
      else
        (case tokenize line of
           t0 # t1 # ts \<Rightarrow>
             (let (verb, type, rest) =
                    (if CHR '':'' \<in> set t0 then
                       (case split_on (CHR '':'') t0 of
                          v # t # _ \<Rightarrow> (v, if t = [] then t1 else t, t1 # ts)
                        | _ \<Rightarrow> (t0, t1, t1 # ts))
                     else (t0, t1, ts))
              in case resolveOp opsMap verb type of
                   None \<Rightarrow> Rejected (UnknownOperation (i + 1) verb type)
                 | Some op \<Rightarrow>
                     (let kv = parseKeyValue rest
                      in Parsed \<lparr>a_verb = verb, a_type = type, a_handler = op_handler op,
                                 a_args = bind_params (op_params op) (named kv) (positional kv) Map.empty,
                                 a_line = i + 1, a_raw = raw\<rparr>))
         | _ \<Rightarrow> Rejected (InvalidFormat (i + 1))))"

text \<open>
  The loop itself, with the arrays \<open>actions\<close> and \<open>errors\<close> as accumulators. The
  action is pushed first and the length tested after it; on overflow the loop is left
  with \<^verbatim>\<open>break\<close>. The configured \<open>maxActions\<close> is an integer; a limit that is not
  a number (every comparison with it is false) is outside the model.
\<close>

fun parse_loop ::
  "ops_map \<Rightarrow> int \<Rightarrow> nat \<Rightarrow> string list \<Rightarrow> action list \<Rightarrow> diag list \<Rightarrow> action list \<times> diag list" where
  "parse_loop opsMap maxActions i [] acts errs = (acts, errs)"
| "parse_loop opsMap maxActions i (raw # rest) acts errs =
     (case parse_line opsMap i raw of
        Skipped \<Rightarrow> parse_loop opsMap maxActions (Suc i) rest acts errs
      | Rejected d \<Rightarrow> parse_loop opsMap maxActions (Suc i) rest acts (errs @ [d])
      | Parsed a \<Rightarrow>
          (if int (length (acts @ [a])) > maxActions
           then (acts @ [a], errs @ [TooManyActions maxActions])
           else parse_loop opsMap maxActions (Suc i) rest (acts @ [a]) errs))"

definition parse_lines :: "ops_map \<Rightarrow> int \<Rightarrow> string list \<Rightarrow> parse_result" where
  "parse_lines opsMap maxActions ls =
     (let (acts, errs) = parse_loop opsMap maxActions 0 ls [] []
      in \<lparr>actions = acts, errors = errs, warnings = []\<rparr>)"

definition parsePatchScript :: "string \<Rightarrow> ops_map \<Rightarrow> int \<Rightarrow> parse_result" where
  "parsePatchScript scriptText opsMap maxActions =
     parse_lines opsMap maxActions (split_lines scriptText)"

section \<open>patchEngine.js: confirmation code\<close>

text \<open>
  \<^verbatim>\<open>toUpperCase\<close> and \<^verbatim>\<open>toLowerCase\<close> on the ASCII letters; other characters
  are left as they are.
\<close>

definition upper_char :: "char \<Rightarrow> char" where
  "upper_char c =
     (case map_of (zip ''abcdefghijklmnopqrstuvwxyz'' ''ABCDEFGHIJKLMNOPQRSTUVWXYZ'') c of
        Some u \<Rightarrow> u
      | None \<Rightarrow> c)"

definition lower_char :: "char \<Rightarrow> char" where
  "lower_char c =
     (case map_of (zip ''ABCDEFGHIJKLMNOPQRSTUVWXYZ'' ''abcdefghijklmnopqrstuvwxyz'') c of
        Some l \<Rightarrow> l
      | None \<Rightarrow> c)"

definition toUpperCase :: "string \<Rightarrow> string" where
  "toUpperCase s = map upper_char s"

definition toLowerCase :: "string \<Rightarrow> string" where
  "toLowerCase s = map lower_char s"

text \<open>\<^verbatim>\<open>buf.toString('hex')\<close>: two lower-case hexadecimal digits for each byte.\<close>

definition hex_digit :: "nat \<Rightarrow> char" where
  "hex_digit n = ''0123456789abcdef'' ! (n mod 16)"

definition hex_byte :: "8 word \<Rightarrow> string" where
  "hex_byte b = [hex_digit (unat b div 16), hex_digit (unat b mod 16)]"

definition toString_hex :: "8 word list \<Rightarrow> string" where
  "toString_hex buf = concat (map hex_byte buf)"

text \<open>
  \<^verbatim>\<open>makeConfirmCode\<close>; the three bytes that \<^verbatim>\<open>crypto.randomBytes(3)\<close> returns are
  its argument.
\<close>

definition makeConfirmCode :: "8 word \<times> 8 word \<times> 8 word \<Rightarrow> string" where
  "makeConfirmCode rnd = (case rnd of (b0, b1, b2) \<Rightarrow> toUpperCase (toString_hex [b0, b1, b2]))"

section \<open>patchEngine.js: executor\<close>

text \<open>
  A handler is asynchronous code against the Discord API. It is modelled as a function
  of the guild id, the bound arguments, the reason of the context and the state \<open>'w\<close>
  of the outside world, which returns the new state of the world together with
  either the value it threw or the object it returned. The table \<open>HANDLERS\<close> is a
  parameter of the executor: a map from handler ids to such functions.
\<close>

record thrown =
  e_message :: "string option"
  e_string :: string

record handler_return =
  h_ok :: bool
  h_changed :: bool
  h_targetId :: "string option"

type_synonym 'w handler_fn =
  "string \<Rightarrow> (string \<rightharpoonup> string) \<Rightarrow> string \<Rightarrow> 'w \<Rightarrow> (thrown + handler_return) \<times> 'w"

record action_result =
  ok :: bool
  line :: nat
  handler :: "string option"
  error :: "string option"
  changed :: "bool option"
  targetId :: "string option"

text \<open>\<^verbatim>\<open>e?.message || String(e)\<close>\<close>

definition error_text :: "thrown \<Rightarrow> string" where
  "error_text e =
     (case e_message e of
        Some m \<Rightarrow> if m = [] then e_string e else m
      | None \<Rightarrow> e_string e)"

text \<open>
  The body of the loop of \<^verbatim>\<open>applyActions\<close> for one action. On success the fields of
  the returned object are spread after \<open>ok\<close>, \<open>line\<close> and \<open>handler\<close>, so its \<open>ok\<close>
  is the one in the result.
\<close>

definition run_action ::
  "(string \<rightharpoonup> 'w handler_fn) \<Rightarrow> string \<Rightarrow> string \<Rightarrow> action \<Rightarrow> 'w \<Rightarrow> action_result \<times> 'w" where
  "run_action HANDLERS guild reason a w =
     (case HANDLERS (a_handler a) of
        None \<Rightarrow>
          (\<lparr>ok = False, line = a_line a, handler = None,
            error = Some (''handler inconnu: '' @ a_handler a),
            changed = None, targetId = None\<rparr>, w)
      | Some fn \<Rightarrow>
          (case fn guild (a_args a) reason w of
             (Inr r, w') \<Rightarrow>
               (\<lparr>ok = h_ok r, line = a_line a, handler = Some (a_handler a),
                 error = None, changed = Some (h_changed r), targetId = h_targetId r\<rparr>, w')
           | (Inl e, w') \<Rightarrow>
               (\<lparr>ok = False, line = a_line a, handler = Some (a_handler a),
                 error = Some (error_text e), changed = None, targetId = None\<rparr>, w')))"

fun applyActions_loop ::
  "(string \<rightharpoonup> 'w handler_fn) \<Rightarrow> string \<Rightarrow> string \<Rightarrow> action list \<Rightarrow> action_result list \<Rightarrow> 'w
     \<Rightarrow> action_result list \<times> 'w" where
  "applyActions_loop HANDLERS guild reason [] results w = (results, w)"
| "applyActions_loop HANDLERS guild reason (a # as) results w =
     (case run_action HANDLERS guild reason a w of
        (r, w') \<Rightarrow> applyActions_loop HANDLERS guild reason as (results @ [r]) w')"

definition applyActions ::
  "(string \<rightharpoonup> 'w handler_fn) \<Rightarrow> string \<Rightarrow> action list \<Rightarrow> string \<Rightarrow> 'w \<Rightarrow> action_result list \<times> 'w" where
  "applyActions HANDLERS guild acts reason w = applyActions_loop HANDLERS guild reason acts [] w"

section \<open>index.js: the patch command\<close>

record pending_patch =
  p_code :: string
  p_actions :: "action list"
  p_createdAt :: int
  p_hasDeletes :: bool

text \<open>
  The state the command works on: the module-level map \<open>pendingPatches\<close>, keyed by
  guild id, and the state of the outside world that the handlers change.
\<close>

record 'w bot_state =
  pendingPatches :: "string \<rightharpoonup> pending_patch"
  world :: 'w

text \<open>
  What the command reads besides its arguments: the loaded registry, the two
  settings taken from the environment and the handler table; and, for one message,
  the guild, the author's tag, the text of the first attachment if there is one,
  the value of \<^verbatim>\<open>Date.now()\<close> in milliseconds and the bytes drawn for the code.
\<close>

record 'w config =
  opsMap :: ops_map
  PATCH_MAX_ACTIONS :: int
  PATCH_ALLOW_DELETES_DEFAULT :: bool
  HANDLERS :: "string \<rightharpoonup> 'w handler_fn"

record message =
  m_guild :: string
  m_author_tag :: string
  m_attachment :: "string option"
  m_now :: int
  m_random :: "8 word \<times> 8 word \<times> 8 word"

definition PATCH_CONFIRM_TTL_MS :: int where
  "PATCH_CONFIRM_TTL_MS = 10 * 60 * 1000"

text \<open>The replies of the command, one constructor for each embed it sends.\<close>

datatype reply =
    ReplyHelp
  | ReplyTemplate
  | ReplyCancelled
  | ReplyNoAttachment
  | ReplyInvalid "diag list"
  | ReplyPlan string bool
  | ReplyNoPending
  | ReplyExpired
  | ReplyInvalidCode
  | ReplyDeletesBlocked
  | ReplyApplied "action_result list" nat nat
  | ReplyUnknownSub

text \<open>\<^verbatim>\<open>args[i] || ''\<close>\<close>

definition arg_or_empty :: "string list \<Rightarrow> nat \<Rightarrow> string" where
  "arg_or_empty args i = (if i < length args then args ! i else [])"

definition is_delete_handler :: "string \<Rightarrow> bool" where
  "is_delete_handler h \<longleftrightarrow> h = ''channel.delete'' \<or> h = ''role.delete''"

text \<open>
  The three subcommands that touch the store. For \<open>plan\<close> the text of the
  attachment is given with the message (fetching it is not modelled), and the reply
  keeps the code and the delete flag but not the rendered summary. For \<open>apply\<close> the
  gates come in the order of the source: no pending patch, expired (the patch is
  deleted), wrong code, deletes blocked; then the executor runs and the patch is
  deleted. Commands are taken one at a time: a command that arrives while the
  executor awaits a handler is outside the model.
\<close>

definition patch_plan :: "'w config \<Rightarrow> message \<Rightarrow> 'w bot_state \<Rightarrow> reply \<times> 'w bot_state" where
  "patch_plan cfg msg s =
     (case m_attachment msg of
        None \<Rightarrow> (ReplyNoAttachment, s)
      | Some text \<Rightarrow>
          (let res = parsePatchScript text (opsMap cfg) (PATCH_MAX_ACTIONS cfg) in
           if errors res \<noteq> [] then (ReplyInvalid (take 15 (errors res)), s)
           else
             (let hasDeletes = list_ex (\<lambda>a. is_delete_handler (a_handler a)) (actions res);
                  code = makeConfirmCode (m_random msg)
              in (ReplyPlan code hasDeletes,
                  s\<lparr>pendingPatches := (pendingPatches s)(m_guild msg \<mapsto>
                       \<lparr>p_code = code, p_actions = actions res,
                        p_createdAt = m_now msg, p_hasDeletes = hasDeletes\<rparr>)\<rparr>))))"

definition patch_apply ::
  "'w config \<Rightarrow> message \<Rightarrow> string list \<Rightarrow> 'w bot_state \<Rightarrow> reply \<times> 'w bot_state" where
  "patch_apply cfg msg args s =
     (let code = toUpperCase (arg_or_empty args 1);
          allowDeletes = (''--allow-deletes'' \<in> set args \<or> PATCH_ALLOW_DELETES_DEFAULT cfg)
      in case pendingPatches s (m_guild msg) of
           None \<Rightarrow> (ReplyNoPending, s)
         | Some pending \<Rightarrow>
             if m_now msg - p_createdAt pending > PATCH_CONFIRM_TTL_MS then
               (ReplyExpired, s\<lparr>pendingPatches := (pendingPatches s)(m_guild msg := None)\<rparr>)
             else if p_code pending \<noteq> code then (ReplyInvalidCode, s)
             else if p_hasDeletes pending \<and> \<not> allowDeletes then (ReplyDeletesBlocked, s)
             else
               (case applyActions (HANDLERS cfg) (m_guild msg) (p_actions pending)
                       (''Patch apply by '' @ m_author_tag msg) (world s) of
                  (results, w') \<Rightarrow>
                    (ReplyApplied results
                       (length (filter (\<lambda>r. ok r) results))
                       (length (filter (\<lambda>r. \<not> ok r) results)),
                     s\<lparr>pendingPatches := (pendingPatches s)(m_guild msg := None), world := w'\<rparr>)))"

definition patch_command ::
  "'w config \<Rightarrow> message \<Rightarrow> string list \<Rightarrow> 'w bot_state \<Rightarrow> reply \<times> 'w bot_state" where
  "patch_command cfg msg args s =
     (let sub = toLowerCase (arg_or_empty args 0) in
      if sub = [] \<or> sub = ''help'' then (ReplyHelp, s)
      else if sub = ''export'' then (ReplyTemplate, s)
      else if sub = ''cancel'' then
        (ReplyCancelled, s\<lparr>pendingPatches := (pendingPatches s)(m_guild msg := None)\<rparr>)
      else if sub = ''plan'' then patch_plan cfg msg s
      else if sub = ''apply'' then patch_apply cfg msg args s
      else (ReplyUnknownSub, s))"

section \<open>Notions used in the statements\<close>

text \<open>
  A string is blank when it consists of white space only. For a line of the operation
  mapping source, \<open>eq_left\<close> is the text before its first \<open>=\<close> and \<open>eq_right\<close>
  the text after it (empty when the line has no \<open>=\<close>); the line misses a side of
  the \<open>=\<close> when one of the two is blank.
\<close>

definition blank :: "string \<Rightarrow> bool" where
  "blank s = list_all is_space s"

definition eq_left :: "string \<Rightarrow> string" where
  "eq_left l = takeWhile (\<lambda>x. x \<noteq> CHR ''='') l"

definition eq_right :: "string \<Rightarrow> string" where
  "eq_right l = drop 1 (dropWhile (\<lambda>x. x \<noteq> CHR ''='') l)"

definition missing_eq_side :: "string \<Rightarrow> bool" where
  "missing_eq_side l \<longleftrightarrow> blank (eq_left l) \<or> blank (eq_right l)"

text \<open>The overflow diagnostic, and the script lines that yield an action.\<close>

definition is_overflow :: "diag \<Rightarrow> bool" where
  "is_overflow d = (case d of TooManyActions _ \<Rightarrow> True | _ \<Rightarrow> False)"

definition yields_action :: "ops_map \<Rightarrow> string \<Rightarrow> bool" where
  "yields_action ops raw = (case parse_line ops 0 raw of Parsed _ \<Rightarrow> True | _ \<Rightarrow> False)"

section \<open>Example data\<close>

text \<open>The registry and the script of the specification's section 8.\<close>

definition spec_registry :: ops_map where
  "spec_registry =
     [''set:channel'' \<mapsto> \<lparr>op_handler = ''handlerA'', op_params = [''id'', ''name''], op_line = 1\<rparr>,
      ''set:*'' \<mapsto> \<lparr>op_handler = ''handlerB'', op_params = [''id''], op_line = 2\<rparr>]"

definition spec_script :: string where
  "spec_script =
     ''# note'' @ [LF] @
     ''set channel 111111111111111111 name='' @ [dquote] @ ''Lounge'' @ [dquote] @ [LF] @
     ''bogus thing'' @ [LF]"

text \<open>
  A mapping source of four lines: one well-formed entry, then three lines that miss
  a side of the \<open>=\<close>.
\<close>

definition example_ops_text :: string where
  "example_ops_text =
     ''set:channel = handlerA:id,name'' @ [LF] @ ''rename = '' @ [LF] @
     '' = channel.delete:id'' @ [LF] @ ''no separator here''"

text \<open>
  A small registry, a script of three lines for it and a script of six lines that
  all yield an action.
\<close>

definition example_registry :: ops_map where
  "example_registry =
     [''keep:*'' \<mapsto> \<lparr>op_handler = ''noop'', op_params = [], op_line = 1\<rparr>,
      ''delete:channel'' \<mapsto> \<lparr>op_handler = ''channel.delete'', op_params = [''id''], op_line = 2\<rparr>]"

definition example_script :: string where
  "example_script =
     ''keep channel 1'' @ [LF] @ ''delete channel 42'' @ [LF] @ ''keep role 2''"

definition six_keep_lines :: string where
  "six_keep_lines =
     ''keep a 1'' @ [LF] @ ''keep b 2'' @ [LF] @ ''keep c 3'' @ [LF] @
     ''keep d 4'' @ [LF] @ ''keep e 5'' @ [LF] @ ''keep f 6''"

text \<open>
  Two handlers over a world that counts the handler calls: \<open>noop\<close> returns as
  \<^verbatim>\<open>handlerNoop\<close> does, and \<open>channel.delete\<close> throws as \<^verbatim>\<open>handlerChannelDelete\<close>
  does for an id that is not a snowflake.
\<close>

definition example_handlers :: "string \<rightharpoonup> nat handler_fn" where
  "example_handlers =
     [''noop'' \<mapsto>
        (\<lambda>guild args reason w. (Inr \<lparr>h_ok = True, h_changed = False, h_targetId = None\<rparr>, Suc w)),
      ''channel.delete'' \<mapsto>
        (\<lambda>guild args reason w.
           (Inl \<lparr>e_message = Some ''id invalide'', e_string = ''Error: id invalide''\<rparr>, Suc w))]"

definition example_config :: "nat config" where
  "example_config =
     \<lparr>opsMap = example_registry, PATCH_MAX_ACTIONS = 500,
      PATCH_ALLOW_DELETES_DEFAULT = False, HANDLERS = example_handlers\<rparr>"

definition example_actions :: "action list" where
  "example_actions =
     [\<lparr>a_verb = ''keep'', a_type = ''channel'', a_handler = ''noop'', a_args = Map.empty,
       a_line = 1, a_raw = ''keep channel 1''\<rparr>,
      \<lparr>a_verb = ''delete'', a_type = ''channel'', a_handler = ''channel.delete'',
       a_args = [''id'' \<mapsto> ''42''], a_line = 2, a_raw = ''delete channel 42''\<rparr>,
      \<lparr>a_verb = ''keep'', a_type = ''role'', a_handler = ''noop'', a_args = Map.empty,
       a_line = 3, a_raw = ''keep role 2''\<rparr>]"

definition example_pending :: pending_patch where
  "example_pending =
     \<lparr>p_code = ''A10FC3'', p_actions = example_actions, p_createdAt = 0, p_hasDeletes = True\<rparr>"

definition example_state :: "nat bot_state" where
  "example_state = \<lparr>pendingPatches = [''g1'' \<mapsto> example_pending], world = 0\<rparr>"

definition empty_state :: "nat bot_state" where
  "empty_state = \<lparr>pendingPatches = Map.empty, world = 0\<rparr>"

text \<open>A message in guild \<open>g1\<close> at time \<open>t\<close>, and the message that carries the plan.\<close>

definition message_at :: "int \<Rightarrow> message" where
  "message_at t =
     \<lparr>m_guild = ''g1'', m_author_tag = ''admin#0001'', m_attachment = None,
      m_now = t, m_random = (0, 0, 0)\<rparr>"

definition plan_message :: message where
  "plan_message =
     \<lparr>m_guild = ''g1'', m_author_tag = ''admin#0001'', m_attachment = Some example_script,
      m_now = 0, m_random = (0xA1, 0x0F, 0xC3)\<rparr>"

section \<open>Loading the registry\<close>

lemma dropWhile_all_Nil:
  assumes "\<forall>x \<in> set (dropWhile P xs). P x"
  shows "dropWhile P xs = []"
proof (cases "dropWhile P xs")
  case Nil
  then show ?thesis .
next
  case (Cons y ys)
  then have "dropWhile P xs \<noteq> []" by simp
  then have "\<not> P (hd (dropWhile P xs))" by (rule hd_dropWhile)
  moreover have "hd (dropWhile P xs) \<in> set (dropWhile P xs)" using Cons by simp
  ultimately show ?thesis using assms by blast
qed

lemma trim_eq_Nil: "trim s = [] \<longleftrightarrow> blank s"
proof
  assume "trim s = []"
  then have "dropWhile is_space (rev (dropWhile is_space s)) = []"
    unfolding trim_def by (simp only: rev_is_Nil_conv)
  then have "\<forall>x \<in> set (rev (dropWhile is_space s)). is_space x"
    by (simp only: dropWhile_eq_Nil_conv)
  then have "\<forall>x \<in> set (dropWhile is_space s). is_space x" by (simp only: set_rev)
  then have "dropWhile is_space s = []" by (rule dropWhile_all_Nil)
  then have "\<forall>x \<in> set s. is_space x" by (simp only: dropWhile_eq_Nil_conv)
  then show "blank s" by (simp only: blank_def list_all_iff)
next
  assume "blank s"
  then have "\<forall>x \<in> set s. is_space x" by (simp only: blank_def list_all_iff)
  then have "dropWhile is_space s = []" by (simp only: dropWhile_eq_Nil_conv)
  then show "trim s = []" unfolding trim_def by (simp only: rev.simps dropWhile.simps)
qed

lemma split_acc_unfold:
  "split_acc c cur s =
     (rev cur @ takeWhile (\<lambda>x. x \<noteq> c) s) #
       (case dropWhile (\<lambda>x. x \<noteq> c) s of [] \<Rightarrow> [] | _ # rest \<Rightarrow> split_acc c [] rest)"
proof (induction s arbitrary: cur)
  case Nil
  show ?case by simp
next
  case (Cons x xs)
  show ?case
  proof (cases "x = c")
    case True
    then show ?thesis by simp
  next
    case False
    have "split_acc c cur (x # xs) = split_acc c (x # cur) xs" using False by simp
    also have "\<dots> = (rev (x # cur) @ takeWhile (\<lambda>x. x \<noteq> c) xs) #
       (case dropWhile (\<lambda>x. x \<noteq> c) xs of [] \<Rightarrow> [] | _ # rest \<Rightarrow> split_acc c [] rest)"
      by (rule Cons.IH)
    finally show ?thesis using False by simp
  qed
qed

lemma split_on_unfold:
  "split_on c s =
     takeWhile (\<lambda>x. x \<noteq> c) s #
       (case dropWhile (\<lambda>x. x \<noteq> c) s of [] \<Rightarrow> [] | _ # rest \<Rightarrow> split_on c rest)"
proof -
  have "split_acc c [] s =
     (rev [] @ takeWhile (\<lambda>x. x \<noteq> c) s) #
       (case dropWhile (\<lambda>x. x \<noteq> c) s of [] \<Rightarrow> [] | _ # rest \<Rightarrow> split_acc c [] rest)"
    by (rule split_acc_unfold)
  then show ?thesis by (simp only: split_on_def rev.simps append_Nil)
qed

lemma split_on_no_sep:
  assumes "c \<notin> set s"
  shows "split_on c s = [s]"
proof -
  from assms have all: "\<forall>x \<in> set s. x \<noteq> c" by auto
  then have d: "dropWhile (\<lambda>x. x \<noteq> c) s = []" by simp
  from all have t: "takeWhile (\<lambda>x. x \<noteq> c) s = s" by simp
  show ?thesis by (subst split_on_unfold) (simp only: d t list.case)
qed

lemma split_on_sep:
  assumes "c \<in> set s"
  shows "\<exists>ps. split_on c s =
           takeWhile (\<lambda>x. x \<noteq> c) s #
           takeWhile (\<lambda>x. x \<noteq> c) (tl (dropWhile (\<lambda>x. x \<noteq> c) s)) # ps"
proof -
  from assms have "dropWhile (\<lambda>x. x \<noteq> c) s \<noteq> []" by (simp add: dropWhile_eq_Nil_conv)
  then obtain y rest where d: "dropWhile (\<lambda>x. x \<noteq> c) s = y # rest"
    by (cases "dropWhile (\<lambda>x. x \<noteq> c) s") auto
  have "split_on c s = takeWhile (\<lambda>x. x \<noteq> c) s # split_on c rest"
    by (subst split_on_unfold) (simp add: d)
  also have "split_on c rest =
      takeWhile (\<lambda>x. x \<noteq> c) rest #
        (case dropWhile (\<lambda>x. x \<noteq> c) rest of [] \<Rightarrow> [] | _ # r \<Rightarrow> split_on c r)"
    by (rule split_on_unfold)
  finally show ?thesis by (simp add: d)
qed

lemma rev_strip: "rev (dropWhile P (rev xs)) @ rev (takeWhile P (rev xs)) = xs"
proof -
  have "rev (dropWhile P (rev xs)) @ rev (takeWhile P (rev xs)) =
          rev (takeWhile P (rev xs) @ dropWhile P (rev xs))"
    by (simp only: rev_append)
  also have "\<dots> = xs" by (simp only: takeWhile_dropWhile_id rev_rev_ident)
  finally show ?thesis .
qed

lemma blank_takeWhile: "blank (takeWhile is_space s)"
  by (induction s) (simp_all add: blank_def)

lemma blank_rev: "blank (rev s) = blank s"
  by (simp add: blank_def list_all_iff)

lemma blank_append: "blank (xs @ ys) \<longleftrightarrow> blank xs \<and> blank ys"
  by (simp add: blank_def)

lemma blank_takeWhile_of: "blank s \<Longrightarrow> blank (takeWhile P s)"
  by (auto simp add: blank_def list_all_iff dest: set_takeWhileD)

lemma trim_decompose: "\<exists>pre post. l = pre @ trim l @ post \<and> blank pre \<and> blank post"
proof -
  define l' where "l' = dropWhile is_space l"
  define pre where "pre = takeWhile is_space l"
  define post where "post = rev (takeWhile is_space (rev l'))"
  have t: "trim l = rev (dropWhile is_space (rev l'))" by (simp only: trim_def l'_def)
  have "trim l @ post = l'" unfolding t post_def by (rule rev_strip)
  then have "pre @ trim l @ post = pre @ l'" by (simp only:)
  also have "\<dots> = l" unfolding pre_def l'_def by (rule takeWhile_dropWhile_id)
  finally have 1: "l = pre @ trim l @ post" by (rule sym)
  have 2: "blank pre" unfolding pre_def by (rule blank_takeWhile)
  have 3: "blank post" unfolding post_def by (simp only: blank_rev blank_takeWhile)
  show ?thesis
  proof (intro exI conjI)
    show "l = pre @ trim l @ post" by (rule 1)
    show "blank pre" by (rule 2)
    show "blank post" by (rule 3)
  qed
qed
lemma not_space_eq: "\<not> is_space (CHR ''='')"
  by (simp add: is_space_def)

lemma blank_no_eq:
  assumes "blank s"
  shows "CHR ''='' \<notin> set s"
proof
  assume mem: "CHR ''='' \<in> set s"
  from assms have "\<forall>x \<in> set s. is_space x" by (simp only: blank_def list_all_iff)
  then have "is_space (CHR ''='')" using mem by (rule bspec)
  then show False by (simp only: not_space_eq)
qed

lemma padded_takeWhile:
  assumes "\<forall>x \<in> set pre. P x" and "x \<in> set t" and "\<not> P x"
  shows "takeWhile P (pre @ t @ post) = pre @ takeWhile P t"
proof -
  have "takeWhile P (pre @ t @ post) = pre @ takeWhile P (t @ post)"
    using assms(1) by (simp add: takeWhile_append2)
  also have "takeWhile P (t @ post) = takeWhile P t"
    using assms(2,3) by (rule takeWhile_append1)
  finally show ?thesis .
qed

lemma padded_dropWhile:
  assumes "\<forall>x \<in> set pre. P x" and "x \<in> set t" and "\<not> P x"
  shows "dropWhile P (pre @ t @ post) = dropWhile P t @ post"
proof -
  have "dropWhile P (pre @ t @ post) = dropWhile P (t @ post)"
    using assms(1) by (simp add: dropWhile_append2)
  also have "\<dots> = dropWhile P t @ post"
    using assms(2,3) by (rule dropWhile_append1)
  finally show ?thesis .
qed

lemma missing_side_padded:
  assumes miss: "missing_eq_side (pre @ t @ post)" and pre: "blank pre" and eq: "CHR ''='' \<in> set t"
  shows "blank (takeWhile (\<lambda>x. x \<noteq> CHR ''='') t)
       \<or> blank (takeWhile (\<lambda>x. x \<noteq> CHR ''='') (tl (dropWhile (\<lambda>x. x \<noteq> CHR ''='') t)))"
proof -
  let ?P = "\<lambda>x. x \<noteq> CHR ''=''"
  have preP: "\<forall>x \<in> set pre. ?P x" using blank_no_eq [OF pre] by auto
  have nP: "\<not> ?P (CHR ''='')" by simp
  have tw: "takeWhile ?P (pre @ t @ post) = pre @ takeWhile ?P t"
    using preP eq nP by (rule padded_takeWhile)
  have dw: "dropWhile ?P (pre @ t @ post) = dropWhile ?P t @ post"
    using preP eq nP by (rule padded_dropWhile)
  have ne: "dropWhile ?P t \<noteq> []" using eq by (simp add: dropWhile_eq_Nil_conv)
  from miss show ?thesis
    unfolding missing_eq_side_def
  proof
    assume "blank (eq_left (pre @ t @ post))"
    then have "blank (pre @ takeWhile ?P t)" by (simp only: eq_left_def tw)
    then have "blank (takeWhile ?P t)" by (simp only: blank_append)
    then show ?thesis ..
  next
    assume "blank (eq_right (pre @ t @ post))"
    then have "blank (drop 1 (dropWhile ?P t @ post))" by (simp only: eq_right_def dw)
    then have "blank (tl (dropWhile ?P t @ post))" by (simp only: drop_Suc One_nat_def drop_0)
    then have "blank (tl (dropWhile ?P t) @ post)" by (simp only: tl_append2 [OF ne])
    then have "blank (tl (dropWhile ?P t))" by (simp only: blank_append)
    then have "blank (takeWhile ?P (tl (dropWhile ?P t)))" by (rule blank_takeWhile_of)
    then show ?thesis ..
  qed
qed

lemma missing_side_trimmed_parts:
  assumes miss: "missing_eq_side l" and eq: "CHR ''='' \<in> set (trim l)"
  shows "blank (takeWhile (\<lambda>x. x \<noteq> CHR ''='') (trim l))
       \<or> blank (takeWhile (\<lambda>x. x \<noteq> CHR ''='') (tl (dropWhile (\<lambda>x. x \<noteq> CHR ''='') (trim l))))"
proof -
  obtain pre post where l: "l = pre @ trim l @ post" and pre: "blank pre"
    using trim_decompose by blast
  have e: "missing_eq_side l = missing_eq_side (pre @ trim l @ post)"
    by (rule arg_cong [OF l])
  have "missing_eq_side (pre @ trim l @ post)" by (rule iffD1 [OF e miss])
  then show ?thesis using pre eq by (rule missing_side_padded)
qed


lemma loadOps_line_missing:
  assumes "missing_eq_side l"
  shows "loadOps_line i l m = m"
proof (cases "CHR ''='' \<in> set (trim l)")
  case False
  then show ?thesis by (simp add: loadOps_line_def Let_def split_on_no_sep)
next
  case True
  from split_on_sep [OF True] obtain ps where
    sp: "split_on (CHR ''='') (trim l) =
           takeWhile (\<lambda>x. x \<noteq> CHR ''='') (trim l) #
           takeWhile (\<lambda>x. x \<noteq> CHR ''='') (tl (dropWhile (\<lambda>x. x \<noteq> CHR ''='') (trim l))) # ps"
    by blast
  from missing_side_trimmed_parts [OF assms True]
  have "trim (takeWhile (\<lambda>x. x \<noteq> CHR ''='') (trim l)) = []
      \<or> trim (takeWhile (\<lambda>x. x \<noteq> CHR ''='') (tl (dropWhile (\<lambda>x. x \<noteq> CHR ''='') (trim l)))) = []"
    by (simp add: trim_eq_Nil)
  then show ?thesis by (auto simp add: loadOps_line_def Let_def sp)
qed

lemma loadOps_line_entry:
  assumes "loadOps_line i l m k = Some e"
  shows "m k = Some e \<or> op_line e = i + 1"
  using assms
  by (auto simp add: loadOps_line_def Let_def split: if_splits list.splits)

lemma loadOps_loop_entry:
  assumes "loadOps_loop i ls m k = Some e"
  shows "m k = Some e \<or> (\<exists>j < length ls. op_line e = i + j + 1 \<and> \<not> missing_eq_side (ls ! j))"
  using assms
proof (induction ls arbitrary: i m)
  case Nil
  then show ?case by simp
next
  case (Cons l ls)
  from Cons.prems have "loadOps_loop (Suc i) ls (loadOps_line i l m) k = Some e" by simp
  from Cons.IH [OF this] show ?case
  proof
    assume here: "loadOps_line i l m k = Some e"
    show ?thesis
    proof (cases "missing_eq_side l")
      case True
      with here show ?thesis by (simp add: loadOps_line_missing)
    next
      case False
      from loadOps_line_entry [OF here] show ?thesis
      proof
        assume "m k = Some e" then show ?thesis ..
      next
        assume "op_line e = i + 1"
        with False have "0 < length (l # ls) \<and> op_line e = i + 0 + 1 \<and> \<not> missing_eq_side ((l # ls) ! 0)"
          by simp
        then show ?thesis by blast
      qed
    qed
  next
    assume "\<exists>j<length ls. op_line e = Suc i + j + 1 \<and> \<not> missing_eq_side (ls ! j)"
    then obtain j where "j < length ls" "op_line e = Suc i + j + 1" "\<not> missing_eq_side (ls ! j)"
      by blast
    then have "Suc j < length (l # ls) \<and> op_line e = i + Suc j + 1 \<and> \<not> missing_eq_side ((l # ls) ! Suc j)"
      by simp
    then show ?thesis by blast
  qed
qed

text \<open>
  Property C7 (specification, sections 4.3 and 6), as far as the code has it. A line of
  the mapping source that misses either side of the \<open>=\<close> (the text before the first
  \<open>=\<close> is blank, or the text after it is blank, or there is no \<open>=\<close>) is skipped
  silently: loading it leaves the table as it was, and every entry of the loaded
  table carries the number of a line that has both sides. The part of the property
  about the sides of the inner \<open>:\<close> does not hold and is left out.
\<close>

theorem loadOpsMap_skips_missing_eq_side:
  "(missing_eq_side l \<longrightarrow> loadOps_line i l m = m)
   \<and> (loadOpsMap raw k = Some e \<longrightarrow>
        (\<exists>j < length (split_lines raw).
           op_line e = j + 1 \<and> \<not> missing_eq_side (split_lines raw ! j)))"
proof (intro conjI impI)
  assume "missing_eq_side l"
  then show "loadOps_line i l m = m" by (rule loadOps_line_missing)
next
  assume "loadOpsMap raw k = Some e"
  then have "loadOps_loop 0 (split_lines raw) Map.empty k = Some e"
    by (simp only: loadOpsMap_def)
  from loadOps_loop_entry [OF this]
  show "\<exists>j < length (split_lines raw). op_line e = j + 1 \<and> \<not> missing_eq_side (split_lines raw ! j)"
    by simp
qed

text \<open>
  In the example source the second line has nothing after its \<open>=\<close> and sets no
  entry; the entry of \<open>set:channel\<close> comes from the first line, which has both sides.
\<close>

theorem loadOpsMap_skips_missing_eq_side_witness:
  "missing_eq_side ''rename = ''
   \<and> loadOps_line 1 ''rename = '' Map.empty = Map.empty
   \<and> loadOpsMap example_ops_text ''set:channel''
       = Some \<lparr>op_handler = ''handlerA'', op_params = [''id'', ''name''], op_line = 1\<rparr>
   \<and> loadOpsMap example_ops_text ''rename:undefined'' = None
   \<and> \<not> missing_eq_side (split_lines example_ops_text ! 0)"
proof -
  have h1: "missing_eq_side ''rename = ''"
    by code_simp
  have h2: "loadOpsMap example_ops_text ''set:channel''
       = Some \<lparr>op_handler = ''handlerA'', op_params = [''id'', ''name''], op_line = 1\<rparr>"
    by code_simp
  have h3: "loadOpsMap example_ops_text ''rename:undefined'' = None"
    by code_simp
  note T = loadOpsMap_skips_missing_eq_side
      [of "''rename = ''" 1 Map.empty example_ops_text "''set:channel''"
          "\<lparr>op_handler = ''handlerA'', op_params = [''id'', ''name''], op_line = 1\<rparr>"]
  from T h1 have a: "loadOps_line 1 ''rename = '' Map.empty = Map.empty" by blast
  from T h2 obtain j where j: "j < length (split_lines example_ops_text)"
      "op_line \<lparr>op_handler = ''handlerA'', op_params = [''id'', ''name''], op_line = 1\<rparr> = j + 1"
      "\<not> missing_eq_side (split_lines example_ops_text ! j)"
    by blast
  from j(2) have "j = 0" by simp
  with j(3) have b: "\<not> missing_eq_side (split_lines example_ops_text ! 0)" by simp
  from h1 a h2 h3 b show ?thesis by (intro conjI)
qed

text \<open>
  The statement as the specification has it fails for the inner \<open>:\<close>: each of these
  three one-line sources, the first without a resource type, the second without a
  verb and the third without a handler id, loads to a table with an entry.
\<close>

theorem loadOpsMap_inner_colon_counterexample:
  "loadOpsMap ''rename = channel.rename:id,name'' ''rename:undefined''
     = Some \<lparr>op_handler = ''channel.rename'', op_params = [''id'', ''name''], op_line = 1\<rparr>
   \<and> loadOpsMap '':channel = channel.topic:id'' '':channel''
     = Some \<lparr>op_handler = ''channel.topic'', op_params = [''id''], op_line = 1\<rparr>
   \<and> loadOpsMap ''set:channel = :id'' ''set:channel''
     = Some \<lparr>op_handler = [], op_params = [''id''], op_line = 1\<rparr>"
  by code_simp

section \<open>The script parser\<close>

lemma parse_line_kind:
  "(parse_line ops i raw = Skipped \<longrightarrow> parse_line ops j raw = Skipped)
   \<and> (\<forall>d. parse_line ops i raw = Rejected d \<longrightarrow> \<not> is_overflow d \<and> (\<exists>d'. parse_line ops j raw = Rejected d'))
   \<and> (\<forall>a. parse_line ops i raw = Parsed a \<longrightarrow> (\<exists>a'. parse_line ops j raw = Parsed a'))"
  unfolding parse_line_def Let_def
  by (simp add: is_overflow_def split: list.split option.split prod.split)

lemma parse_line_valid:
  assumes "yields_action ops raw"
  shows "\<exists>a. parse_line ops i raw = Parsed a"
proof -
  from assms obtain a0 where "parse_line ops 0 raw = Parsed a0"
    by (auto simp add: yields_action_def split: line_outcome.splits)
  with parse_line_kind [of ops 0 raw i] show ?thesis by blast
qed

lemma parse_line_invalid:
  assumes "\<not> yields_action ops raw"
  shows "parse_line ops i raw = Skipped \<or> (\<exists>d. parse_line ops i raw = Rejected d \<and> \<not> is_overflow d)"
proof (cases "parse_line ops i raw")
  case Skipped
  then show ?thesis by simp
next
  case (Rejected d)
  with parse_line_kind [of ops i raw 0] show ?thesis by blast
next
  case (Parsed a)
  with parse_line_kind [of ops i raw 0] obtain a' where "parse_line ops 0 raw = Parsed a'" by blast
  with assms show ?thesis by (simp add: yields_action_def)
qed

lemma parse_loop_overflow:
  assumes "int (length acts) \<le> max mx 0"
      and "int (length acts) + int (length (filter (yields_action ops) xs)) > max mx 0"
  shows "parse_loop ops mx i (xs @ ys) acts errs = parse_loop ops mx i xs acts errs
       \<and> length (fst (parse_loop ops mx i xs acts errs)) = Suc (nat mx)
       \<and> length (filter is_overflow (snd (parse_loop ops mx i xs acts errs)))
           = Suc (length (filter is_overflow errs))"
  using assms
proof (induction xs arbitrary: i acts errs)
  case Nil
  from Nil(2) have "int (length acts) > max mx 0" by (simp only: filter.simps list.size of_nat_0 add_0_right)
  with Nil(1) have False by linarith
  then show ?case ..
next
  case (Cons raw xs)
  show ?case
  proof (cases "yields_action ops raw")
    case False
    with Cons.prems have cnt:
      "int (length acts) + int (length (filter (yields_action ops) xs)) > max mx 0" by simp
    from parse_line_invalid [OF False, of i] show ?thesis
    proof
      assume sk: "parse_line ops i raw = Skipped"
      from Cons.IH [OF Cons.prems(1) cnt, of "Suc i" errs] show ?thesis by (simp add: sk)
    next
      assume "\<exists>d. parse_line ops i raw = Rejected d \<and> \<not> is_overflow d"
      then obtain d where rj: "parse_line ops i raw = Rejected d" and d: "\<not> is_overflow d" by blast
      from Cons.IH [OF Cons.prems(1) cnt, of "Suc i" "errs @ [d]"] d
      show ?thesis by (simp add: rj)
    qed
  next
    case True
    from parse_line_valid [OF True, of i] obtain a where pa: "parse_line ops i raw = Parsed a" by blast
    show ?thesis
    proof (cases "int (length (acts @ [a])) > mx")
      case over: True
      from over Cons.prems(1) have "length (acts @ [a]) = Suc (nat mx)" by (simp add: max_def split: if_splits)
      then show ?thesis using over by (simp add: pa is_overflow_def)
    next
      case under: False
      then have p1: "int (length (acts @ [a])) \<le> max mx 0" by simp
      from True Cons.prems(2) have p2:
        "int (length (acts @ [a])) + int (length (filter (yields_action ops) xs)) > max mx 0" by simp
      from Cons.IH [OF p1 p2, of "Suc i" errs] under show ?thesis by (simp add: pa)
    qed
  qed
qed

text \<open>
  Property C1 (specification, sections 4.4 and 8), as the code has it. The limit is
  tested after the action has been pushed, so the action that crosses the limit is
  kept. When the lines \<open>xs\<close> at the head of the script hold more lines that yield an
  action than \<open>maxActions\<close> (and at least one), the lines \<open>ys\<close> after them are not
  consumed: the result is that of \<open>xs\<close> alone. It holds exactly \<open>maxActions + 1\<close>
  actions (one action for a negative limit), not \<open>maxActions\<close>, and exactly one
  overflow diagnostic.
\<close>

theorem parse_overflow_keeps_crossing_action:
  assumes "split_lines scriptText = xs @ ys"
      and "int (length (filter (yields_action ops) xs)) > max maxActions 0"
  shows "parsePatchScript scriptText ops maxActions = parse_lines ops maxActions xs
         \<and> length (actions (parsePatchScript scriptText ops maxActions)) = Suc (nat maxActions)
         \<and> length (filter is_overflow (errors (parsePatchScript scriptText ops maxActions))) = 1"
proof -
  have a0: "int (length ([] :: action list)) \<le> max maxActions 0" by simp
  have a1: "int (length ([] :: action list)) + int (length (filter (yields_action ops) xs))
              > max maxActions 0"
    using assms(2) by simp
  from parse_loop_overflow [OF a0 a1, of 0 ys "[]"]
  have loop: "parse_loop ops maxActions 0 (xs @ ys) [] [] = parse_loop ops maxActions 0 xs [] []"
    and len: "length (fst (parse_loop ops maxActions 0 xs [] [])) = Suc (nat maxActions)"
    and ovf: "length (filter is_overflow (snd (parse_loop ops maxActions 0 xs [] []))) = 1"
    by simp_all
  have same: "parsePatchScript scriptText ops maxActions = parse_lines ops maxActions xs"
    by (simp add: parsePatchScript_def parse_lines_def assms(1) loop)
  obtain acts errs where r: "parse_loop ops maxActions 0 xs [] [] = (acts, errs)"
    by (cases "parse_loop ops maxActions 0 xs [] []")
  from len ovf show ?thesis
    unfolding same by (simp add: parse_lines_def r)
qed

text \<open>
  Six lines that all yield an action, with a limit of 1: the first two lines already
  exceed it, the other four are not consumed, and two actions come back.
\<close>

theorem parse_overflow_keeps_crossing_action_witness:
  "parsePatchScript six_keep_lines example_registry 1
     = parse_lines example_registry 1 [''keep a 1'', ''keep b 2'']
   \<and> length (actions (parsePatchScript six_keep_lines example_registry 1)) = 2
   \<and> length (filter is_overflow (errors (parsePatchScript six_keep_lines example_registry 1))) = 1"
proof -
  have h1: "split_lines six_keep_lines =
              [''keep a 1'', ''keep b 2''] @ [''keep c 3'', ''keep d 4'', ''keep e 5'', ''keep f 6'']"
    by code_simp
  have h2: "int (length (filter (yields_action example_registry) [''keep a 1'', ''keep b 2''])) > max 1 0"
    by code_simp
  have e: "Suc (nat (1::int)) = 2" by simp
  from parse_overflow_keeps_crossing_action [OF h1 h2] show ?thesis unfolding e .
qed

text \<open>
  The statement as the specification has it, with \<open>maxActions = 1\<close> and
  \<open>maxActions + 5\<close> lines that all yield an action: the result holds two actions, not
  one.
\<close>

theorem parse_overflow_counterexample:
  "length (filter (yields_action example_registry) (split_lines six_keep_lines)) = 1 + 5
   \<and> length (actions (parsePatchScript six_keep_lines example_registry 1)) = 2
   \<and> length (actions (parsePatchScript six_keep_lines example_registry 1)) \<noteq> 1
   \<and> errors (parsePatchScript six_keep_lines example_registry 1) = [TooManyActions 1]"
  by code_simp

text \<open>
  Property C8 (specification, section 8), evaluated. The script of the specification
  parses to one action and one diagnostic for line 3, as stated, and the action has
  the handler \<open>handlerA\<close> and the id of the script. But the tokenizer strips quotes
  only where a quote starts a token: in \<^verbatim>\<open>name="Lounge"\<close> the token starts with
  \<open>n\<close>, so the value bound to \<open>name\<close> is the text with its two quote characters,
  eight characters long, and not \<open>Lounge\<close>.
\<close>

theorem parse_spec_script_keeps_quotes:
  "length (actions (parsePatchScript spec_script spec_registry 10)) = 1
   \<and> a_handler (hd (actions (parsePatchScript spec_script spec_registry 10))) = ''handlerA''
   \<and> a_line (hd (actions (parsePatchScript spec_script spec_registry 10))) = 2
   \<and> a_args (hd (actions (parsePatchScript spec_script spec_registry 10))) ''id''
       = Some ''111111111111111111''
   \<and> a_args (hd (actions (parsePatchScript spec_script spec_registry 10))) ''name''
       = Some ([dquote] @ ''Lounge'' @ [dquote])
   \<and> a_args (hd (actions (parsePatchScript spec_script spec_registry 10))) ''name''
       \<noteq> Some ''Lounge''
   \<and> errors (parsePatchScript spec_script spec_registry 10) = [UnknownOperation 3 ''bogus'' ''thing'']"
  by code_simp

text \<open>
  Property C9 (specification, sections 4.4 and 6), evaluated. The operation
  \<open>set:channel\<close> resolves in the registry, and the shorthand followed by one argument
  is parsed; but the line that consists of the shorthand alone has one token, and the
  test on the number of tokens comes before the shorthand is looked at: the line is
  rejected as a format error and yields no action.
\<close>

theorem parse_colon_shorthand_alone_rejected:
  "resolveOp spec_registry ''set'' ''channel''
     = Some \<lparr>op_handler = ''handlerA'', op_params = [''id'', ''name''], op_line = 1\<rparr>
   \<and> length (actions (parsePatchScript ''set:channel'' spec_registry 10)) = 0
   \<and> errors (parsePatchScript ''set:channel'' spec_registry 10) = [InvalidFormat 1]
   \<and> length (actions (parsePatchScript ''set:channel 42'' spec_registry 10)) = 1
   \<and> errors (parsePatchScript ''set:channel 42'' spec_registry 10) = []"
  by code_simp

section \<open>The confirmation code\<close>

lemma hex_digit_mem: "hex_digit n \<in> set ''0123456789abcdef''"
  unfolding hex_digit_def by (rule nth_mem) simp

lemma upper_of_hex:
  assumes "c \<in> set ''0123456789abcdef''"
  shows "upper_char c \<in> set ''0123456789ABCDEF''"
  using assms unfolding set_simps
  by (elim insertE emptyE) (simp_all add: upper_char_def)

lemma upper_hex_digit: "upper_char (hex_digit n) \<in> set ''0123456789ABCDEF''"
  by (rule upper_of_hex [OF hex_digit_mem])

lemma upper_char_other:
  "c \<notin> set ''abcdefghijklmnopqrstuvwxyz'' \<Longrightarrow> upper_char c = c"
  by (simp add: upper_char_def)

lemma lower_char_other:
  "c \<notin> set ''ABCDEFGHIJKLMNOPQRSTUVWXYZ'' \<Longrightarrow> lower_char c = c"
  by (simp add: lower_char_def)

lemma upper_char_range: "upper_char c \<notin> set ''abcdefghijklmnopqrstuvwxyz''"
proof (cases "c \<in> set ''abcdefghijklmnopqrstuvwxyz''")
  case True
  then show ?thesis
    unfolding set_simps by (elim insertE emptyE) (simp_all add: upper_char_def)
next
  case False
  then show ?thesis by (simp only: upper_char_other not_False_eq_True)
qed

lemma upper_upper_char: "upper_char (upper_char c) = upper_char c"
  by (rule upper_char_other [OF upper_char_range])

lemma upper_lower_char: "upper_char (lower_char c) = upper_char c"
proof (cases "c \<in> set ''ABCDEFGHIJKLMNOPQRSTUVWXYZ''")
  case True
  then show ?thesis
    unfolding set_simps by (elim insertE emptyE) (simp_all add: upper_char_def lower_char_def)
next
  case False
  then show ?thesis by (simp only: lower_char_other not_False_eq_True)
qed

lemma makeConfirmCode_length: "length (makeConfirmCode rnd) = 6"
  by (cases rnd) (simp add: makeConfirmCode_def toUpperCase_def toString_hex_def hex_byte_def)

lemma makeConfirmCode_chars: "set (makeConfirmCode rnd) \<subseteq> set ''0123456789ABCDEF''"
proof
  fix c assume "c \<in> set (makeConfirmCode rnd)"
  then obtain n where "c = upper_char (hex_digit n)"
    by (cases rnd) (auto simp add: makeConfirmCode_def toUpperCase_def toString_hex_def hex_byte_def)
  then show "c \<in> set ''0123456789ABCDEF''" by (simp only: upper_hex_digit)
qed

lemma toUpperCase_toLowerCase: "toUpperCase (toLowerCase s) = toUpperCase s"
  by (simp add: toUpperCase_def toLowerCase_def upper_lower_char)

lemma toUpperCase_makeConfirmCode: "toUpperCase (makeConfirmCode rnd) = makeConfirmCode rnd"
  by (cases rnd) (simp add: makeConfirmCode_def toUpperCase_def upper_upper_char)

lemma same_lower_same_upper:
  assumes "toLowerCase s = toLowerCase t"
  shows "toUpperCase s = toUpperCase t"
proof -
  have "toUpperCase s = toUpperCase (toLowerCase s)" by (simp only: toUpperCase_toLowerCase)
  also have "\<dots> = toUpperCase (toLowerCase t)" by (simp only: assms)
  also have "\<dots> = toUpperCase t" by (simp only: toUpperCase_toLowerCase)
  finally show ?thesis .
qed

text \<open>
  Property C10 (\<open>makeConfirmCode\<close> and the code gate of apply). Whatever three bytes are
  drawn, the code that an accepted plan replies with and stores is six characters
  long and made of the digits and the capital letters A to F. An apply in the same
  guild within the time to live, whose argument equals that code up to the case of
  its letters, is upper-cased to the stored code and gets past the code gate: it is
  stopped at the delete gate or executed.
\<close>

theorem confirm_code_any_case:
  assumes "patch_plan cfg msg s = (ReplyPlan code d, s')"
      and "m_guild msg2 = m_guild msg"
      and "m_now msg2 - m_now msg \<le> PATCH_CONFIRM_TTL_MS"
      and "toLowerCase (arg_or_empty args 1) = toLowerCase code"
  shows "length code = 6
         \<and> set code \<subseteq> set ''0123456789ABCDEF''
         \<and> (\<exists>p. pendingPatches s' (m_guild msg) = Some p \<and> p_code p = code)
         \<and> toUpperCase (arg_or_empty args 1) = code
         \<and> (fst (patch_apply cfg msg2 args s') = ReplyDeletesBlocked
            \<or> (\<exists>rs n k. fst (patch_apply cfg msg2 args s') = ReplyApplied rs n k))"
proof -
  from assms(1) have code: "code = makeConfirmCode (m_random msg)"
    by (auto simp add: patch_plan_def Let_def split: option.splits if_splits)
  from assms(1) obtain p where
    p: "pendingPatches s' (m_guild msg) = Some p" "p_code p = code" "p_createdAt p = m_now msg"
    by (auto simp add: patch_plan_def Let_def split: option.splits if_splits)
  have up: "toUpperCase (arg_or_empty args 1) = code"
    using same_lower_same_upper [OF assms(4)] by (simp add: code toUpperCase_makeConfirmCode)
  have gate: "fst (patch_apply cfg msg2 args s') = ReplyDeletesBlocked
            \<or> (\<exists>rs n k. fst (patch_apply cfg msg2 args s') = ReplyApplied rs n k)"
    using p assms(2,3) up by (auto simp add: patch_apply_def Let_def split: prod.splits)
  have len: "length code = 6" unfolding code by (rule makeConfirmCode_length)
  have chars: "set code \<subseteq> set ''0123456789ABCDEF''" unfolding code by (rule makeConfirmCode_chars)
  have stored: "\<exists>p. pendingPatches s' (m_guild msg) = Some p \<and> p_code p = code"
    using p by blast
  from len chars stored up gate show ?thesis by (intro conjI)
qed

text \<open>
  The example plan draws the bytes A1 0F C3 and replies with the code A10FC3; the
  argument a10fc3 is accepted, and the apply reaches the delete gate.
\<close>

theorem confirm_code_any_case_witness:
  "fst (patch_plan example_config plan_message empty_state) = ReplyPlan ''A10FC3'' True
   \<and> toUpperCase (arg_or_empty [''apply'', ''a10fc3''] 1) = ''A10FC3''
   \<and> fst (patch_apply example_config (message_at 1000) [''apply'', ''a10fc3'']
            (snd (patch_plan example_config plan_message empty_state))) = ReplyDeletesBlocked"
proof -
  have e1: "errors (parsePatchScript example_script example_registry 500) = []"
    by code_simp
  have e2: "list_ex (\<lambda>a. is_delete_handler (a_handler a))
              (actions (parsePatchScript example_script example_registry 500))"
    by code_simp
  have e3: "makeConfirmCode (0xA1, 0x0F, 0xC3) = ''A10FC3''"
    by code_simp
  have planned: "fst (patch_plan example_config plan_message empty_state) = ReplyPlan ''A10FC3'' True"
    by (simp add: patch_plan_def Let_def example_config_def plan_message_def e1 e2 e3)
  then have h1: "patch_plan example_config plan_message empty_state
                   = (ReplyPlan ''A10FC3'' True, snd (patch_plan example_config plan_message empty_state))"
    by (simp add: prod_eq_iff)
  have h2: "m_guild (message_at 1000) = m_guild plan_message"
    by (simp add: message_at_def plan_message_def)
  have h3: "m_now (message_at 1000) - m_now plan_message \<le> PATCH_CONFIRM_TTL_MS"
    by (simp add: message_at_def plan_message_def PATCH_CONFIRM_TTL_MS_def)
  have h4: "toLowerCase (arg_or_empty [''apply'', ''a10fc3''] 1) = toLowerCase ''A10FC3''"
    by (simp add: arg_or_empty_def toLowerCase_def lower_char_def)
  have flag: "''--allow-deletes'' \<notin> set [''apply'', ''a10fc3'']"
    by simp
  have hd: "\<exists>p. pendingPatches (snd (patch_plan example_config plan_message empty_state)) ''g1'' = Some p
               \<and> p_hasDeletes p \<and> p_code p = ''A10FC3'' \<and> p_createdAt p = 0"
    by (simp add: patch_plan_def Let_def example_config_def plan_message_def e1 e2 e3)
  have not_applied:
    "\<nexists>rs n k. fst (patch_apply example_config (message_at 1000) [''apply'', ''a10fc3'']
                     (snd (patch_plan example_config plan_message empty_state))) = ReplyApplied rs n k"
    using hd
    by (auto simp add: patch_apply_def Let_def message_at_def example_config_def
          PATCH_CONFIRM_TTL_MS_def arg_or_empty_def toUpperCase_def upper_char_def)
  from confirm_code_any_case [OF h1 h2 h3 h4] not_applied planned
  show ?thesis by simp
qed

section \<open>The executor\<close>

lemma run_action_line: "line (fst (run_action H g r a w)) = a_line a"
  by (simp add: run_action_def split: option.splits prod.splits sum.splits)

lemma applyActions_loop_acc:
  "applyActions_loop H g r xs res w =
     (res @ fst (applyActions_loop H g r xs [] w), snd (applyActions_loop H g r xs [] w))"
proof (induction xs arbitrary: res w)
  case Nil
  show ?case by simp
next
  case (Cons a xs)
  obtain x w' where step: "run_action H g r a w = (x, w')" by (cases "run_action H g r a w")
  show ?case
    using Cons.IH [of "res @ [x]" w'] Cons.IH [of "[x]" w'] by (simp add: step)
qed

lemma applyActions_Nil: "applyActions H g [] r w = ([], w)"
  by (simp add: applyActions_def)

lemma applyActions_Cons:
  "applyActions H g (a # as) r w =
     (fst (run_action H g r a w) # fst (applyActions H g as r (snd (run_action H g r a w))),
      snd (applyActions H g as r (snd (run_action H g r a w))))"
proof -
  obtain x w' where step: "run_action H g r a w = (x, w')" by (cases "run_action H g r a w")
  show ?thesis
    using applyActions_loop_acc [of H g r as "[x]" w'] by (simp add: applyActions_def step)
qed

lemma applyActions_length: "length (fst (applyActions H g acts r w)) = length acts"
  by (induction acts arbitrary: w) (simp_all add: applyActions_Nil applyActions_Cons)

lemma applyActions_lines: "map line (fst (applyActions H g acts r w)) = map a_line acts"
  by (induction acts arbitrary: w) (simp_all add: applyActions_Nil applyActions_Cons run_action_line)

lemma applyActions_append:
  "applyActions H g (xs @ ys) r w =
     (fst (applyActions H g xs r w) @ fst (applyActions H g ys r (snd (applyActions H g xs r w))),
      snd (applyActions H g ys r (snd (applyActions H g xs r w))))"
  by (induction xs arbitrary: w) (simp_all add: applyActions_Nil applyActions_Cons)

lemma applyActions_nth:
  "i < length acts \<Longrightarrow>
     fst (applyActions H g acts r w) ! i =
       fst (run_action H g r (acts ! i) (snd (applyActions H g (take i acts) r w)))"
proof (induction acts arbitrary: i w)
  case Nil
  then show ?case by simp
next
  case (Cons a as)
  show ?case
  proof (cases i)
    case 0
    then show ?thesis by (simp add: applyActions_Cons applyActions_Nil)
  next
    case (Suc j)
    with Cons.prems have "j < length as" by simp
    from Cons.IH [OF this] show ?thesis by (simp add: Suc applyActions_Cons)
  qed
qed

lemma run_action_raises:
  "H (a_handler a) = Some fn \<Longrightarrow> fn g (a_args a) r w = (Inl e, w') \<Longrightarrow>
     run_action H g r a w =
       (\<lparr>ok = False, line = a_line a, handler = Some (a_handler a),
         error = Some (error_text e), changed = None, targetId = None\<rparr>, w')"
  by (simp add: run_action_def)

lemma error_text_message:
  "e_message e = Some m \<Longrightarrow> m \<noteq> [] \<Longrightarrow> error_text e = m"
  by (simp add: error_text_def)

lemma error_text_no_message:
  "e_message e = None \<or> e_message e = Some [] \<Longrightarrow> error_text e = e_string e"
  by (auto simp add: error_text_def)

text \<open>
  Property C6 (specification, sections 4.7 and 8). \<open>applyActions\<close> returns one result for
  each action, in the order of the actions (the results carry the lines of the
  actions, in that order). It is sequential: the result at index \<open>i\<close> is the outcome
  of running action \<open>i\<close> in the world that the actions before it have left, and the
  world after \<open>i + 1\<close> actions is the one that run leaves. When the handler of action
  \<open>i\<close> throws, the result at \<open>i\<close> is a failure with the line and the handler id of
  the action, and its error is the message of the thrown value whenever that message
  is not empty (the string form of the value when it has no message or an empty one);
  the world goes on from where the throwing handler left it, and by the first parts
  the later actions still run and have their results.
\<close>

theorem applyActions_isolation:
  "length (fst (applyActions H g acts r w)) = length acts
   \<and> map line (fst (applyActions H g acts r w)) = map a_line acts
   \<and> (\<forall>i < length acts.
        fst (applyActions H g acts r w) ! i =
          fst (run_action H g r (acts ! i) (snd (applyActions H g (take i acts) r w)))
        \<and> snd (applyActions H g (take (Suc i) acts) r w) =
          snd (run_action H g r (acts ! i) (snd (applyActions H g (take i acts) r w)))
        \<and> (\<forall>fn e w'. H (a_handler (acts ! i)) = Some fn \<longrightarrow>
              fn g (a_args (acts ! i)) r (snd (applyActions H g (take i acts) r w)) = (Inl e, w') \<longrightarrow>
              fst (applyActions H g acts r w) ! i =
                \<lparr>ok = False, line = a_line (acts ! i), handler = Some (a_handler (acts ! i)),
                 error = Some (error_text e), changed = None, targetId = None\<rparr>
              \<and> (\<forall>m. e_message e = Some m \<longrightarrow> m \<noteq> [] \<longrightarrow>
                    error (fst (applyActions H g acts r w) ! i) = Some m)
              \<and> (e_message e = None \<or> e_message e = Some [] \<longrightarrow>
                    error (fst (applyActions H g acts r w) ! i) = Some (e_string e))
              \<and> snd (applyActions H g (take (Suc i) acts) r w) = w'))"
proof (intro conjI allI impI)
  show "length (fst (applyActions H g acts r w)) = length acts" by (rule applyActions_length)
  show "map line (fst (applyActions H g acts r w)) = map a_line acts" by (rule applyActions_lines)
next
  fix i assume i: "i < length acts"
  show nth: "fst (applyActions H g acts r w) ! i =
          fst (run_action H g r (acts ! i) (snd (applyActions H g (take i acts) r w)))"
    by (rule applyActions_nth [OF i])
  have "take (Suc i) acts = take i acts @ [acts ! i]"
    using i by (simp add: take_Suc_conv_app_nth)
  then show after: "snd (applyActions H g (take (Suc i) acts) r w) =
          snd (run_action H g r (acts ! i) (snd (applyActions H g (take i acts) r w)))"
    by (simp add: applyActions_append applyActions_Cons applyActions_Nil)
  fix fn e w'
  assume h: "H (a_handler (acts ! i)) = Some fn"
     and t: "fn g (a_args (acts ! i)) r (snd (applyActions H g (take i acts) r w)) = (Inl e, w')"
  show res: "fst (applyActions H g acts r w) ! i =
                \<lparr>ok = False, line = a_line (acts ! i), handler = Some (a_handler (acts ! i)),
                 error = Some (error_text e), changed = None, targetId = None\<rparr>"
    using h t by (simp add: nth run_action_raises)
  show "snd (applyActions H g (take (Suc i) acts) r w) = w'"
    using h t by (simp add: after run_action_raises)
  show "error (fst (applyActions H g acts r w) ! i) = Some (e_string e)"
    if "e_message e = None \<or> e_message e = Some []"
    using that by (simp add: res error_text_no_message)
  fix m
  assume "e_message e = Some m" and "m \<noteq> []"
  then show "error (fst (applyActions H g acts r w) ! i) = Some m"
    by (simp add: res error_text_message)
qed

text \<open>
  The three example actions: the second handler throws a value whose message is
  "id invalide" and whose string form is "Error: id invalide". The results are success,
  failure with the message, success, and the world has counted three calls.
\<close>

theorem applyActions_isolation_witness:
  "map ok (fst (applyActions example_handlers ''g1'' example_actions ''r'' 0)) = [True, False, True]
   \<and> fst (applyActions example_handlers ''g1'' example_actions ''r'' 0) ! 1 =
       \<lparr>ok = False, line = 2, handler = Some ''channel.delete'',
        error = Some ''id invalide'', changed = None, targetId = None\<rparr>
   \<and> error (fst (applyActions example_handlers ''g1'' example_actions ''r'' 0) ! 1)
       \<noteq> Some ''Error: id invalide''
   \<and> snd (applyActions example_handlers ''g1'' (take 2 example_actions) ''r'' 0) = 2
   \<and> snd (applyActions example_handlers ''g1'' example_actions ''r'' 0) = 3"
proof -
  define fn :: "nat handler_fn" where
    "fn = (\<lambda>guild args reason w.
             (Inl \<lparr>e_message = Some ''id invalide'', e_string = ''Error: id invalide''\<rparr>, Suc w))"
  let ?e = "\<lparr>e_message = Some ''id invalide'', e_string = ''Error: id invalide''\<rparr>"
  let ?rs = "fst (applyActions example_handlers ''g1'' example_actions ''r'' 0)"
  have i: "1 < length example_actions"
    by (simp add: example_actions_def)
  have h: "example_handlers (a_handler (example_actions ! 1)) = Some fn"
    by (simp add: example_handlers_def example_actions_def fn_def)
  have t: "fn ''g1'' (a_args (example_actions ! 1)) ''r''
             (snd (applyActions example_handlers ''g1'' (take 1 example_actions) ''r'' 0))
           = (Inl ?e, 2)"
    by (simp add: fn_def applyActions_def run_action_def example_handlers_def example_actions_def)
  have m: "e_message ?e = Some ''id invalide''" "''id invalide'' \<noteq> []"
    by simp_all
  from applyActions_isolation [of example_handlers "''g1''" example_actions "''r''" 0] i
  have "\<forall>fn e w'. example_handlers (a_handler (example_actions ! 1)) = Some fn \<longrightarrow>
              fn ''g1'' (a_args (example_actions ! 1)) ''r''
                (snd (applyActions example_handlers ''g1'' (take 1 example_actions) ''r'' 0)) = (Inl e, w') \<longrightarrow>
              ?rs ! 1 =
                \<lparr>ok = False, line = a_line (example_actions ! 1),
                 handler = Some (a_handler (example_actions ! 1)),
                 error = Some (error_text e), changed = None, targetId = None\<rparr>
              \<and> (\<forall>m. e_message e = Some m \<longrightarrow> m \<noteq> [] \<longrightarrow> error (?rs ! 1) = Some m)
              \<and> (e_message e = None \<or> e_message e = Some [] \<longrightarrow> error (?rs ! 1) = Some (e_string e))
              \<and> snd (applyActions example_handlers ''g1'' (take (Suc 1) example_actions) ''r'' 0) = w'"
    by blast
  with h t have
    shape: "?rs ! 1 =
       \<lparr>ok = False, line = a_line (example_actions ! 1),
        handler = Some (a_handler (example_actions ! 1)),
        error = Some (error_text ?e), changed = None, targetId = None\<rparr>"
    and msg: "\<forall>m. e_message ?e = Some m \<longrightarrow> m \<noteq> [] \<longrightarrow> error (?rs ! 1) = Some m"
    and after: "snd (applyActions example_handlers ''g1'' (take (Suc 1) example_actions) ''r'' 0) = 2"
    by blast+
  from msg m have err: "error (?rs ! 1) = Some ''id invalide''" by blast
  from shape err have second:
    "?rs ! 1 = \<lparr>ok = False, line = 2, handler = Some ''channel.delete'',
        error = Some ''id invalide'', changed = None, targetId = None\<rparr>"
    by (simp add: example_actions_def)
  from err have differs: "error (?rs ! 1) \<noteq> Some ''Error: id invalide''" by simp
  from after have two: "snd (applyActions example_handlers ''g1'' (take 2 example_actions) ''r'' 0) = 2"
    by (simp add: numeral_2_eq_2)
  have all: "map ok ?rs = [True, False, True]
     \<and> snd (applyActions example_handlers ''g1'' example_actions ''r'' 0) = 3"
    by (simp add: applyActions_def run_action_def example_handlers_def example_actions_def)
  from all second differs two show ?thesis by (intro conjI) simp_all
qed

section \<open>The apply workflow\<close>

lemma patch_command_apply:
  "toLowerCase (arg_or_empty args 0) = ''apply'' \<Longrightarrow>
     patch_command cfg msg args s = patch_apply cfg msg args s"
  by (simp add: patch_command_def)

lemma patch_command_plan:
  "toLowerCase (arg_or_empty args 0) = ''plan'' \<Longrightarrow>
     patch_command cfg msg args s = patch_plan cfg msg s"
  by (simp add: patch_command_def)

text \<open>
  Property C2 (specification, sections 3 and 4.6). When an apply attempt passes the four
  gates (a pending patch exists, it has not expired, the submitted code, upper-cased
  as the handler does, equals the stored one, and deletes are allowed if the patch has
  any) the executor runs on the stored actions, and afterwards the pending patch of
  the guild is gone, whatever the handler table does and however many results are
  failures: any further apply in the same guild is answered "no pending patch".
\<close>

theorem apply_consumes_pending:
  assumes "pendingPatches s (m_guild msg) = Some p"
      and "m_now msg - p_createdAt p \<le> PATCH_CONFIRM_TTL_MS"
      and "toUpperCase (arg_or_empty args 1) = p_code p"
      and "p_hasDeletes p \<longrightarrow> ''--allow-deletes'' \<in> set args \<or> PATCH_ALLOW_DELETES_DEFAULT cfg"
  shows "(\<exists>n k. fst (patch_apply cfg msg args s) =
            ReplyApplied (fst (applyActions (HANDLERS cfg) (m_guild msg) (p_actions p)
                                 (''Patch apply by '' @ m_author_tag msg) (world s))) n k)
         \<and> pendingPatches (snd (patch_apply cfg msg args s)) (m_guild msg) = None
         \<and> (\<forall>msg2 args2. m_guild msg2 = m_guild msg \<longrightarrow>
               fst (patch_apply cfg msg2 args2 (snd (patch_apply cfg msg args s))) = ReplyNoPending)"
  using assms by (auto simp add: patch_apply_def Let_def split: prod.splits)

text \<open>
  The example patch holds a delete that fails; applied with the code in lower case and
  the flag, it is executed and consumed.
\<close>

theorem apply_consumes_pending_witness:
  "(\<exists>n k. fst (patch_apply example_config (message_at 1000)
                 [''apply'', ''a10fc3'', ''--allow-deletes''] example_state) =
            ReplyApplied (fst (applyActions example_handlers ''g1'' example_actions
                                 ''Patch apply by admin#0001'' 0)) n k)
   \<and> pendingPatches (snd (patch_apply example_config (message_at 1000)
                 [''apply'', ''a10fc3'', ''--allow-deletes''] example_state)) ''g1'' = None
   \<and> fst (patch_apply example_config (message_at 2000) [''apply'', ''A10FC3'', ''--allow-deletes'']
           (snd (patch_apply example_config (message_at 1000)
                 [''apply'', ''a10fc3'', ''--allow-deletes''] example_state))) = ReplyNoPending"
proof -
  have h1: "pendingPatches example_state (m_guild (message_at 1000)) = Some example_pending"
    by (simp add: example_state_def message_at_def)
  have h2: "m_now (message_at 1000) - p_createdAt example_pending \<le> PATCH_CONFIRM_TTL_MS"
    by (simp add: message_at_def example_pending_def PATCH_CONFIRM_TTL_MS_def)
  have h3: "toUpperCase (arg_or_empty [''apply'', ''a10fc3'', ''--allow-deletes''] 1)
              = p_code example_pending"
    by (simp add: arg_or_empty_def toUpperCase_def upper_char_def example_pending_def)
  have h4: "p_hasDeletes example_pending \<longrightarrow>
              ''--allow-deletes'' \<in> set [''apply'', ''a10fc3'', ''--allow-deletes'']
              \<or> PATCH_ALLOW_DELETES_DEFAULT example_config"
    by simp
  have g: "m_guild (message_at 2000) = m_guild (message_at 1000)"
    by (simp add: message_at_def)
  from apply_consumes_pending [OF h1 h2 h3 h4] g
  show ?thesis
    by (simp add: message_at_def example_config_def example_pending_def example_state_def)
qed

text \<open>
  Property C3 (specification, sections 4.6 and 8). The time to live is ten minutes. An
  apply that comes later than that after \<open>createdAt\<close> is answered "expired", runs no
  action (the world is as before) and deletes the pending patch; any apply in the
  same guild after it is answered "no pending patch", whatever code it carries.
\<close>

theorem apply_expired_one_shot:
  assumes "pendingPatches s (m_guild msg) = Some p"
      and "m_now msg - p_createdAt p > PATCH_CONFIRM_TTL_MS"
  shows "PATCH_CONFIRM_TTL_MS = 600000
         \<and> fst (patch_apply cfg msg args s) = ReplyExpired
         \<and> world (snd (patch_apply cfg msg args s)) = world s
         \<and> pendingPatches (snd (patch_apply cfg msg args s)) = (pendingPatches s)(m_guild msg := None)
         \<and> (\<forall>msg2 args2. m_guild msg2 = m_guild msg \<longrightarrow>
               fst (patch_apply cfg msg2 args2 (snd (patch_apply cfg msg args s))) = ReplyNoPending)"
  using assms by (simp add: patch_apply_def Let_def PATCH_CONFIRM_TTL_MS_def)

text \<open>
  The example patch was created at time 0; an apply after eleven minutes with the right
  code expires it, and one after twelve minutes finds nothing.
\<close>

theorem apply_expired_one_shot_witness:
  "fst (patch_apply example_config (message_at 660000) [''apply'', ''A10FC3''] example_state)
     = ReplyExpired
   \<and> world (snd (patch_apply example_config (message_at 660000) [''apply'', ''A10FC3'']
                  example_state)) = 0
   \<and> pendingPatches (snd (patch_apply example_config (message_at 660000) [''apply'', ''A10FC3'']
                  example_state)) ''g1'' = None
   \<and> fst (patch_apply example_config (message_at 720000) [''apply'', ''A10FC3'']
           (snd (patch_apply example_config (message_at 660000) [''apply'', ''A10FC3'']
                  example_state))) = ReplyNoPending"
proof -
  have h1: "pendingPatches example_state (m_guild (message_at 660000)) = Some example_pending"
    by (simp add: example_state_def message_at_def)
  have h2: "m_now (message_at 660000) - p_createdAt example_pending > PATCH_CONFIRM_TTL_MS"
    by (simp add: message_at_def example_pending_def PATCH_CONFIRM_TTL_MS_def)
  have g: "m_guild (message_at 720000) = m_guild (message_at 660000)"
    by (simp add: message_at_def)
  from apply_expired_one_shot [OF h1 h2, where cfg = example_config and args = "[''apply'', ''A10FC3'']"] g
  show ?thesis
    by (simp add: message_at_def example_state_def)
qed

text \<open>
  Property C4 (specification, sections 4.6 and 8). With a pending patch that has not
  expired, an apply whose code (upper-cased, as the handler compares it) differs from
  the stored code is answered "invalid code" and leaves the whole state, pending patch
  and world, as it was. A later apply in the same guild, still within the time to
  live and with the right code, gets past the code gate: it is either stopped at the
  delete gate or executed.
\<close>

theorem apply_wrong_code_retains:
  assumes "pendingPatches s (m_guild msg) = Some p"
      and "m_now msg - p_createdAt p \<le> PATCH_CONFIRM_TTL_MS"
      and "toUpperCase (arg_or_empty args 1) \<noteq> p_code p"
  shows "patch_apply cfg msg args s = (ReplyInvalidCode, s)
         \<and> (\<forall>msg2 args2. m_guild msg2 = m_guild msg \<longrightarrow>
               m_now msg2 - p_createdAt p \<le> PATCH_CONFIRM_TTL_MS \<longrightarrow>
               toUpperCase (arg_or_empty args2 1) = p_code p \<longrightarrow>
               (fst (patch_apply cfg msg2 args2 (snd (patch_apply cfg msg args s)))
                  = ReplyDeletesBlocked
                \<or> (\<exists>rs n k. fst (patch_apply cfg msg2 args2 (snd (patch_apply cfg msg args s)))
                                = ReplyApplied rs n k)))"
  using assms by (auto simp add: patch_apply_def Let_def split: prod.splits)

text \<open>
  A wrong code against the example patch, then the right one: the second apply reaches
  the delete gate.
\<close>

theorem apply_wrong_code_retains_witness:
  "patch_apply example_config (message_at 1000) [''apply'', ''000000''] example_state
     = (ReplyInvalidCode, example_state)
   \<and> fst (patch_apply example_config (message_at 2000) [''apply'', ''A10FC3'']
           (snd (patch_apply example_config (message_at 1000) [''apply'', ''000000'']
                  example_state))) = ReplyDeletesBlocked"
proof -
  have h1: "pendingPatches example_state (m_guild (message_at 1000)) = Some example_pending"
    by (simp add: example_state_def message_at_def)
  have h2: "m_now (message_at 1000) - p_createdAt example_pending \<le> PATCH_CONFIRM_TTL_MS"
    by (simp add: message_at_def example_pending_def PATCH_CONFIRM_TTL_MS_def)
  have h3: "toUpperCase (arg_or_empty [''apply'', ''000000''] 1) \<noteq> p_code example_pending"
    by (simp add: arg_or_empty_def toUpperCase_def upper_char_def example_pending_def)
  have first: "patch_apply example_config (message_at 1000) [''apply'', ''000000''] example_state
                 = (ReplyInvalidCode, example_state)"
    using apply_wrong_code_retains [OF h1 h2 h3, where cfg = example_config] by simp
  have "fst (patch_apply example_config (message_at 2000) [''apply'', ''A10FC3'']
           example_state) = ReplyDeletesBlocked"
    by (simp add: patch_apply_def Let_def message_at_def example_state_def example_pending_def
          example_config_def PATCH_CONFIRM_TTL_MS_def arg_or_empty_def toUpperCase_def upper_char_def)
  with first show ?thesis by simp
qed

text \<open>
  Property C5 (specification, sections 4.5, 4.6 and 8). The delete-class handlers are
  \<open>channel.delete\<close> and \<open>role.delete\<close>. When a plan is accepted (the script parses
  without a diagnostic) and one of its actions has such a handler, the stored patch
  has \<open>hasDeletes\<close> set. An apply in the same guild, within the time to live and
  with the right code, is then answered "deletes blocked" and leaves the state as it
  was when deletes are not allowed (neither the flag nor the default). When they are
  allowed the executor runs on the planned actions, from the world as the plan left
  it: the reply carries its results with the two counts, the world after the apply
  is the world the executor returns, and the pending patch is gone.
\<close>

theorem destructive_gate:
  assumes "m_attachment msg = Some text"
      and "errors (parsePatchScript text (opsMap cfg) (PATCH_MAX_ACTIONS cfg)) = []"
      and "\<exists>a \<in> set (actions (parsePatchScript text (opsMap cfg) (PATCH_MAX_ACTIONS cfg))).
             is_delete_handler (a_handler a)"
      and "m_guild msg2 = m_guild msg"
      and "m_now msg2 - m_now msg \<le> PATCH_CONFIRM_TTL_MS"
      and "toUpperCase (arg_or_empty args 1) = makeConfirmCode (m_random msg)"
  shows "(\<exists>p. pendingPatches (snd (patch_plan cfg msg s)) (m_guild msg) = Some p \<and> p_hasDeletes p)
         \<and> world (snd (patch_plan cfg msg s)) = world s
         \<and> (\<not> (''--allow-deletes'' \<in> set args \<or> PATCH_ALLOW_DELETES_DEFAULT cfg) \<longrightarrow>
              patch_apply cfg msg2 args (snd (patch_plan cfg msg s))
                = (ReplyDeletesBlocked, snd (patch_plan cfg msg s)))
         \<and> (''--allow-deletes'' \<in> set args \<or> PATCH_ALLOW_DELETES_DEFAULT cfg \<longrightarrow>
              fst (patch_apply cfg msg2 args (snd (patch_plan cfg msg s))) =
                 ReplyApplied
                   (fst (applyActions (HANDLERS cfg) (m_guild msg)
                           (actions (parsePatchScript text (opsMap cfg) (PATCH_MAX_ACTIONS cfg)))
                           (''Patch apply by '' @ m_author_tag msg2) (world s)))
                   (length (filter ok
                      (fst (applyActions (HANDLERS cfg) (m_guild msg)
                           (actions (parsePatchScript text (opsMap cfg) (PATCH_MAX_ACTIONS cfg)))
                           (''Patch apply by '' @ m_author_tag msg2) (world s)))))
                   (length (filter (\<lambda>r. \<not> ok r)
                      (fst (applyActions (HANDLERS cfg) (m_guild msg)
                           (actions (parsePatchScript text (opsMap cfg) (PATCH_MAX_ACTIONS cfg)))
                           (''Patch apply by '' @ m_author_tag msg2) (world s)))))
              \<and> world (snd (patch_apply cfg msg2 args (snd (patch_plan cfg msg s)))) =
                   snd (applyActions (HANDLERS cfg) (m_guild msg)
                           (actions (parsePatchScript text (opsMap cfg) (PATCH_MAX_ACTIONS cfg)))
                           (''Patch apply by '' @ m_author_tag msg2) (world s))
              \<and> pendingPatches (snd (patch_apply cfg msg2 args (snd (patch_plan cfg msg s))))
                   (m_guild msg) = None)"
proof -
  let ?res = "parsePatchScript text (opsMap cfg) (PATCH_MAX_ACTIONS cfg)"
  let ?p = "\<lparr>p_code = makeConfirmCode (m_random msg), p_actions = actions ?res,
             p_createdAt = m_now msg, p_hasDeletes = True\<rparr>"
  let ?s1 = "snd (patch_plan cfg msg s)"
  let ?run = "applyActions (HANDLERS cfg) (m_guild msg) (actions ?res)
                (''Patch apply by '' @ m_author_tag msg2) (world s)"
  from assms(3) have del: "list_ex (\<lambda>a. is_delete_handler (a_handler a)) (actions ?res)"
    by (simp only: list_ex_iff)
  have plan: "?s1 = s\<lparr>pendingPatches := (pendingPatches s)(m_guild msg \<mapsto> ?p)\<rparr>"
    using assms(1,2) del by (simp add: patch_plan_def Let_def)
  have stored: "pendingPatches ?s1 (m_guild msg2) = Some ?p"
    by (simp add: plan assms(4))
  have w: "world ?s1 = world s"
    by (simp add: plan)
  have flagged: "\<exists>p. pendingPatches ?s1 (m_guild msg) = Some p \<and> p_hasDeletes p"
    using stored assms(4) by simp
  have blocked: "patch_apply cfg msg2 args ?s1 = (ReplyDeletesBlocked, ?s1)"
    if "\<not> (''--allow-deletes'' \<in> set args \<or> PATCH_ALLOW_DELETES_DEFAULT cfg)"
    using that stored assms(5,6) by (simp add: patch_apply_def Let_def)
  have applied: "patch_apply cfg msg2 args ?s1 =
       (ReplyApplied (fst ?run) (length (filter ok (fst ?run)))
          (length (filter (\<lambda>r. \<not> ok r) (fst ?run))),
        ?s1\<lparr>pendingPatches := (pendingPatches ?s1)(m_guild msg2 := None), world := snd ?run\<rparr>)"
    if "''--allow-deletes'' \<in> set args \<or> PATCH_ALLOW_DELETES_DEFAULT cfg"
    using that stored assms(4,5,6) w
    by (simp add: patch_apply_def Let_def split: prod.splits)
  show ?thesis
  proof (intro conjI impI)
    show "\<exists>p. pendingPatches ?s1 (m_guild msg) = Some p \<and> p_hasDeletes p" by (rule flagged)
    show "world ?s1 = world s" by (rule w)
    show "patch_apply cfg msg2 args ?s1 = (ReplyDeletesBlocked, ?s1)"
      if "\<not> (''--allow-deletes'' \<in> set args \<or> PATCH_ALLOW_DELETES_DEFAULT cfg)"
      using that by (rule blocked)
  next
    assume allow: "''--allow-deletes'' \<in> set args \<or> PATCH_ALLOW_DELETES_DEFAULT cfg"
    show "fst (patch_apply cfg msg2 args ?s1) =
            ReplyApplied (fst ?run) (length (filter ok (fst ?run)))
              (length (filter (\<lambda>r. \<not> ok r) (fst ?run)))"
      by (simp add: applied [OF allow])
    show "world (snd (patch_apply cfg msg2 args ?s1)) = snd ?run"
      by (simp add: applied [OF allow])
    show "pendingPatches (snd (patch_apply cfg msg2 args ?s1)) (m_guild msg) = None"
      by (simp add: applied [OF allow] assms(4))
  qed
qed

text \<open>
  The example script holds a delete. Planned at time 0 with the bytes A1 0F C3, it
  is blocked without the flag, with the world untouched; with the flag the three
  handlers are called (the world counts three calls), two results are successes and
  one, the delete, is a failure.
\<close>

theorem destructive_gate_witness:
  "patch_apply example_config (message_at 1000) [''apply'', ''A10FC3'']
       (snd (patch_plan example_config plan_message empty_state))
     = (ReplyDeletesBlocked, snd (patch_plan example_config plan_message empty_state))
   \<and> world (snd (patch_plan example_config plan_message empty_state)) = 0
   \<and> (\<exists>rs. fst (patch_apply example_config (message_at 1000)
                     [''apply'', ''A10FC3'', ''--allow-deletes'']
                     (snd (patch_plan example_config plan_message empty_state)))
                 = ReplyApplied rs 2 1 \<and> map ok rs = [True, False, True])
   \<and> world (snd (patch_apply example_config (message_at 1000)
                     [''apply'', ''A10FC3'', ''--allow-deletes'']
                     (snd (patch_plan example_config plan_message empty_state)))) = 3
   \<and> pendingPatches (snd (patch_apply example_config (message_at 1000)
                     [''apply'', ''A10FC3'', ''--allow-deletes'']
                     (snd (patch_plan example_config plan_message empty_state)))) ''g1'' = None"
proof -
  let ?run = "applyActions example_handlers ''g1''
                (actions (parsePatchScript example_script example_registry 500))
                ''Patch apply by admin#0001'' (0::nat)"
  have h1: "m_attachment plan_message = Some example_script"
    by (simp add: plan_message_def)
  have h2: "errors (parsePatchScript example_script (opsMap example_config)
                      (PATCH_MAX_ACTIONS example_config)) = []"
    by code_simp
  have h3: "\<exists>a \<in> set (actions (parsePatchScript example_script (opsMap example_config)
                      (PATCH_MAX_ACTIONS example_config))). is_delete_handler (a_handler a)"
    by code_simp
  have h4: "m_guild (message_at 1000) = m_guild plan_message"
    by (simp add: message_at_def plan_message_def)
  have h5: "m_now (message_at 1000) - m_now plan_message \<le> PATCH_CONFIRM_TTL_MS"
    by (simp add: message_at_def plan_message_def PATCH_CONFIRM_TTL_MS_def)
  have code: "makeConfirmCode (m_random plan_message) = ''A10FC3''"
    by code_simp
  have h6: "toUpperCase (arg_or_empty [''apply'', ''A10FC3''] 1) = makeConfirmCode (m_random plan_message)"
    unfolding code by (simp add: arg_or_empty_def toUpperCase_def upper_char_def)
  have h6': "toUpperCase (arg_or_empty [''apply'', ''A10FC3'', ''--allow-deletes''] 1)
               = makeConfirmCode (m_random plan_message)"
    unfolding code by (simp add: arg_or_empty_def toUpperCase_def upper_char_def)
  have d: "\<not> PATCH_ALLOW_DELETES_DEFAULT example_config"
    by (simp add: example_config_def)
  have r1: "map ok (fst ?run) = [True, False, True]"
    by code_simp
  have r2: "length (filter ok (fst ?run)) = 2"
    by code_simp
  have r3: "length (filter (\<lambda>r. \<not> ok r) (fst ?run)) = 1"
    by code_simp
  have r4: "snd ?run = 3"
    by code_simp
  have cfg: "HANDLERS example_config = example_handlers" "opsMap example_config = example_registry"
      "PATCH_MAX_ACTIONS example_config = 500" "world empty_state = 0"
      "m_guild plan_message = ''g1''" "m_author_tag (message_at 1000) = ''admin#0001''"
    by (simp_all add: example_config_def empty_state_def plan_message_def message_at_def)
  have run_eq: "applyActions (HANDLERS example_config) (m_guild plan_message)
                  (actions (parsePatchScript example_script (opsMap example_config)
                              (PATCH_MAX_ACTIONS example_config)))
                  (''Patch apply by '' @ m_author_tag (message_at 1000)) (world empty_state)
                = ?run"
    by (simp only: cfg append.simps)
  have allow: "''--allow-deletes'' \<in> set [''apply'', ''A10FC3'', ''--allow-deletes'']
                 \<or> PATCH_ALLOW_DELETES_DEFAULT example_config"
    by simp
  have deny: "\<not> (''--allow-deletes'' \<in> set [''apply'', ''A10FC3'']
                 \<or> PATCH_ALLOW_DELETES_DEFAULT example_config)"
    using d by simp
  note T1 = destructive_gate [OF h1 h2 h3 h4 h5 h6, where s = empty_state]
  note T2 = destructive_gate [OF h1 h2 h3 h4 h5 h6', where s = empty_state]
  have blocked: "patch_apply example_config (message_at 1000) [''apply'', ''A10FC3'']
       (snd (patch_plan example_config plan_message empty_state))
     = (ReplyDeletesBlocked, snd (patch_plan example_config plan_message empty_state))"
    by (rule T1 [THEN conjunct2, THEN conjunct2, THEN conjunct1, THEN mp, OF deny])
  have "world (snd (patch_plan example_config plan_message empty_state)) = world empty_state"
    by (rule T1 [THEN conjunct2, THEN conjunct1])
  then have w0: "world (snd (patch_plan example_config plan_message empty_state)) = 0"
    by (simp only: cfg)
  note A = T2 [THEN conjunct2, THEN conjunct2, THEN conjunct2, THEN mp, OF allow, unfolded run_eq]
  from A [THEN conjunct1] have applied:
    "fst (patch_apply example_config (message_at 1000) [''apply'', ''A10FC3'', ''--allow-deletes'']
            (snd (patch_plan example_config plan_message empty_state)))
       = ReplyApplied (fst ?run) 2 1"
    by (simp only: r2 r3)
  from A [THEN conjunct2, THEN conjunct1] have w3:
    "world (snd (patch_apply example_config (message_at 1000)
                     [''apply'', ''A10FC3'', ''--allow-deletes'']
                     (snd (patch_plan example_config plan_message empty_state)))) = 3"
    by (simp only: r4)
  from A [THEN conjunct2, THEN conjunct2] have gone:
    "pendingPatches (snd (patch_apply example_config (message_at 1000)
                     [''apply'', ''A10FC3'', ''--allow-deletes'']
                     (snd (patch_plan example_config plan_message empty_state)))) ''g1'' = None"
    by (simp only: cfg)
  from applied r1 have ex: "\<exists>rs. fst (patch_apply example_config (message_at 1000)
                     [''apply'', ''A10FC3'', ''--allow-deletes'']
                     (snd (patch_plan example_config plan_message empty_state)))
                 = ReplyApplied rs 2 1 \<and> map ok rs = [True, False, True]"
    by (intro exI conjI)
  from blocked w0 ex w3 gone show ?thesis by (intro conjI)
qed

end
